theory Spec2Isabelle
  imports Main "HOL-Library.AList"
begin

section \<open>The CMIS storage of siilo (\<^verbatim>\<open>siilo/storages/cmis.py\<close>)\<close>

text \<open>
  The module has two classes. \<^verbatim>\<open>CmisStorage\<close> maps file operations onto a CMIS
  repository addressed by path; \<^verbatim>\<open>CmisFile\<close> is a file-like handle that stages the
  remote document in a private temporary directory, downloads it when it is opened for
  reading or appending and uploads it when it is closed after a change.

  Python strings and byte strings are \<^typ>\<open>string\<close>; exceptions are values of the
  type \<open>exn\<close>, and a method that can raise returns \<open>exn + 'a\<close> together with the
  state it leaves behind, since an exception does not undo the mutations made before it.
\<close>

subsection \<open>Strings and POSIX paths\<close>

type_synonym bytes = string

text \<open>\<^verbatim>\<open>s.startswith('/')\<close>\<close>

definition startswith_slash :: "string \<Rightarrow> bool" where
  "startswith_slash s = (case s of [] \<Rightarrow> False | c # _ \<Rightarrow> c = CHR ''/'')"

text \<open>\<^verbatim>\<open>s.endswith('/')\<close>\<close>

definition endswith_slash :: "string \<Rightarrow> bool" where
  "endswith_slash s = (s \<noteq> [] \<and> last s = CHR ''/'')"

text \<open>\<^verbatim>\<open>s.split('/')\<close>: the pieces between the separators, empty pieces included.\<close>

fun split_slash :: "string \<Rightarrow> string list" where
  "split_slash [] = [[]]"
| "split_slash (c # cs) =
     (if c = CHR ''/'' then [] # split_slash cs
      else (c # hd (split_slash cs)) # tl (split_slash cs))"

text \<open>\<^verbatim>\<open>s.rstrip('/')\<close>\<close>

definition rstrip_slash :: "string \<Rightarrow> string" where
  "rstrip_slash s = rev (dropWhile (\<lambda>c. c = CHR ''/'') (rev s))"

text \<open>
  \<^verbatim>\<open>posixpath.basename(p)\<close>: \<^verbatim>\<open>i = p.rfind('/') + 1; return p[i:]\<close>, the part after
  the last slash.
\<close>

definition os_path_basename :: "string \<Rightarrow> string" where
  "os_path_basename p = rev (takeWhile (\<lambda>c. c \<noteq> CHR ''/'') (rev p))"

text \<open>
  \<^verbatim>\<open>posixpath.split(p)\<close>: \<^verbatim>\<open>head, tail = p[:i], p[i:]\<close> with \<open>i\<close> as above; trailing
  slashes are stripped from the head unless it consists of slashes only.
\<close>

definition os_path_split :: "string \<Rightarrow> string \<times> string" where
  "os_path_split p =
     (let head = rev (dropWhile (\<lambda>c. c \<noteq> CHR ''/'') (rev p));
          tail = rev (takeWhile (\<lambda>c. c \<noteq> CHR ''/'') (rev p))
      in (if head \<noteq> [] \<and> \<not> list_all (\<lambda>c. c = CHR ''/'') head then rstrip_slash head else head,
          tail))"

text \<open>\<^verbatim>\<open>posixpath.join(a, b)\<close> for two arguments.\<close>

definition os_path_join :: "string \<Rightarrow> string \<Rightarrow> string" where
  "os_path_join a b =
     (if startswith_slash b then b
      else if a = [] \<or> endswith_slash a then a @ b
      else a @ ''/'' @ b)"

text \<open>
  \<^verbatim>\<open>posixpath.normpath\<close>, on the components of an absolute path: empty components and
  \<^verbatim>\<open>.\<close> are dropped, \<^verbatim>\<open>..\<close> removes the component before it (and is dropped at the root).
  The accumulator holds the components kept so far, last one first.
\<close>

fun norm_comps :: "string list \<Rightarrow> string list \<Rightarrow> string list" where
  "norm_comps acc [] = rev acc"
| "norm_comps acc (c # cs) =
     (if c = [] \<or> c = ''.'' then norm_comps acc cs
      else if c = ''..'' then norm_comps (tl acc) cs
      else norm_comps (c # acc) cs)"

definition abs_components :: "string \<Rightarrow> string list" where
  "abs_components p = norm_comps [] (split_slash p)"

text \<open>
  A path lies strictly inside a directory when, after normalisation, the directory's
  components are a proper prefix of the path's components.
\<close>

definition strictly_inside :: "string \<Rightarrow> string \<Rightarrow> bool" where
  "strictly_inside dir p =
     (let d = abs_components dir; f = abs_components p
      in length d < length f \<and> take (length d) f = d)"

subsection \<open>Exceptions\<close>

text \<open>
  The failures of \<^verbatim>\<open>cmislib\<close>, each carrying the HTTP status of the response:
  \<^verbatim>\<open>ObjectNotFoundException\<close>, \<^verbatim>\<open>RuntimeException\<close>, and every other
  \<^verbatim>\<open>CmisException\<close>.
\<close>

datatype cmis_error =
    ObjectNotFoundException nat
  | RuntimeException nat
  | CmisException nat

text \<open>
  \<open>FileNotFoundError\<close> is \<^verbatim>\<open>siilo.exceptions.FileNotFoundError\<close>, which carries the
  name; the others are Python's own: an operating-system error on a local path, a
  \<^verbatim>\<open>ValueError\<close> (invalid mode, closed file), \<^verbatim>\<open>io.UnsupportedOperation\<close> and
  \<^verbatim>\<open>AttributeError\<close>.
\<close>

datatype exn =
    Cmis cmis_error
  | FileNotFoundError string
  | IsADirectoryError string
  | NoSuchFileError string
  | FileExistsError string
  | ValueError
  | UnsupportedOperation
  | AttributeError

subsection \<open>The remote repository\<close>

text \<open>
  Modelled from the spec: the Remote Repository collaborator (the \<^verbatim>\<open>cmislib\<close>
  objects \<^verbatim>\<open>Repository\<close>, \<^verbatim>\<open>Folder\<close>, \<^verbatim>\<open>Document\<close>), which the module calls
  and which is not part of the sources. It is a tree of folders and documents addressed
  by path. A remote object is referred to by the names on the way to it from the root
  folder; where two siblings carry the same name the first one is meant.
\<close>

datatype node = Document string bytes | Folder string "node list"

type_synonym objref = "string list"

fun node_name :: "node \<Rightarrow> string" where
  "node_name (Document n _) = n"
| "node_name (Folder n _) = n"

fun children :: "node \<Rightarrow> node list" where
  "children (Document _ _) = []"
| "children (Folder _ cs) = cs"

fun is_folder :: "node \<Rightarrow> bool" where
  "is_folder (Document _ _) = False"
| "is_folder (Folder _ _) = True"

text \<open>The calls a repository receives; the log of the calls is part of its state.\<close>

datatype call =
    GetObjectByPath string
  | GetContentStream objref
  | SetContentStream objref bytes
  | Delete objref bool
  | GetTree objref
  | CreateFolder objref string
  | CreateDocument objref string bytes

text \<open>
  The state of the world outside a handle: the repository (its tree, the calls it
  answers with a failure whatever its tree holds, the log of the calls received, the
  size of the chunks of a content stream) and the local file system (the temporary
  directories that exist and the files in them, by path).
\<close>

record world =
  rootFolder :: node
  faults :: "(call \<times> cmis_error) list"
  calls :: "call list"
  chunk_size :: nat
  dirs :: "string list"
  files :: "(string \<times> bytes) list"

text \<open>The node a reference denotes, if any.\<close>

fun node_at :: "objref \<Rightarrow> node \<Rightarrow> node option" where
  "node_at [] n = Some n"
| "node_at (s # ss) n =
     (case find (\<lambda>c. node_name c = s) (children n) of
        None \<Rightarrow> None
      | Some c \<Rightarrow> node_at ss c)"

text \<open>Replace the first child of that name.\<close>

fun update_child :: "string \<Rightarrow> (node \<Rightarrow> node) \<Rightarrow> node list \<Rightarrow> node list" where
  "update_child s f [] = []"
| "update_child s f (c # cs) = (if node_name c = s then f c # cs else c # update_child s f cs)"

fun with_children :: "node \<Rightarrow> node list \<Rightarrow> node" where
  "with_children (Document n b) cs = Document n b"
| "with_children (Folder n _) cs = Folder n cs"

text \<open>Apply a change to the node a reference denotes.\<close>

fun update_at :: "objref \<Rightarrow> (node \<Rightarrow> node) \<Rightarrow> node \<Rightarrow> node" where
  "update_at [] f n = f n"
| "update_at (s # ss) f n = with_children n (update_child s (update_at ss f) (children n))"

text \<open>Remove the first child of that name.\<close>

fun remove_child :: "string \<Rightarrow> node list \<Rightarrow> node list" where
  "remove_child s [] = []"
| "remove_child s (c # cs) = (if node_name c = s then cs else c # remove_child s cs)"

text \<open>A repository resolves a path by its non-empty segments.\<close>

definition path_segments :: "string \<Rightarrow> objref" where
  "path_segments path = filter (\<lambda>s. s \<noteq> []) (split_slash path)"

text \<open>The content of a document travels in chunks of at most \<open>n\<close> bytes.\<close>

function chunked :: "nat \<Rightarrow> bytes \<Rightarrow> bytes list" where
  "chunked n xs =
     (if xs = [] then []
      else if n = 0 \<or> length xs \<le> n then [xs]
      else take n xs # chunked n (drop n xs))"
  by pat_completeness auto
termination
  by (relation "measure (\<lambda>(n, xs). length xs)") auto

declare chunked.simps [simp del]

text \<open>Every call is logged, and fails when the repository is set to fail it.\<close>

definition received :: "call \<Rightarrow> world \<Rightarrow> world" where
  "received c w = w\<lparr>calls := calls w @ [c]\<rparr>"

text \<open>\<^verbatim>\<open>Repository.getObjectByPath(path)\<close>\<close>

definition getObjectByPath :: "string \<Rightarrow> world \<Rightarrow> (exn + objref) \<times> world" where
  "getObjectByPath path w =
     (let w' = received (GetObjectByPath path) w in
      case map_of (faults w) (GetObjectByPath path) of
        Some e \<Rightarrow> (Inl (Cmis e), w')
      | None \<Rightarrow>
         (case node_at (path_segments path) (rootFolder w) of
            None \<Rightarrow> (Inl (Cmis (ObjectNotFoundException 404)), w')
          | Some _ \<Rightarrow> (Inr (path_segments path), w')))"

text \<open>\<^verbatim>\<open>Document.getContentStream()\<close>; a folder has no such method.\<close>

definition getContentStream :: "objref \<Rightarrow> world \<Rightarrow> (exn + bytes list) \<times> world" where
  "getContentStream obj w =
     (case node_at obj (rootFolder w) of
        Some (Document n b) \<Rightarrow>
          (let w' = received (GetContentStream obj) w in
           case map_of (faults w) (GetContentStream obj) of
             Some e \<Rightarrow> (Inl (Cmis e), w')
           | None \<Rightarrow> (Inr (chunked (chunk_size w) b), w'))
      | _ \<Rightarrow> (Inl AttributeError, w))"

text \<open>\<^verbatim>\<open>Document.setContentStream(contentFile)\<close>, with the bytes read from the file.\<close>

definition setContentStream :: "objref \<Rightarrow> bytes \<Rightarrow> world \<Rightarrow> (exn + unit) \<times> world" where
  "setContentStream obj b w =
     (case node_at obj (rootFolder w) of
        Some (Document n _) \<Rightarrow>
          (let w' = received (SetContentStream obj b) w in
           case map_of (faults w) (SetContentStream obj b) of
             Some e \<Rightarrow> (Inl (Cmis e), w')
           | None \<Rightarrow>
               (Inr (), w'\<lparr>rootFolder := update_at obj (\<lambda>_. Document n b) (rootFolder w)\<rparr>))
      | _ \<Rightarrow> (Inl AttributeError, w))"

text \<open>
  \<^verbatim>\<open>CmisObject.delete(allVersions=...)\<close>: the object is removed from its parent; the
  root folder cannot be deleted.
\<close>

definition delete_object :: "objref \<Rightarrow> bool \<Rightarrow> world \<Rightarrow> (exn + unit) \<times> world" where
  "delete_object obj all_versions w =
     (let w' = received (Delete obj all_versions) w in
      case map_of (faults w) (Delete obj all_versions) of
        Some e \<Rightarrow> (Inl (Cmis e), w')
      | None \<Rightarrow>
         (if obj = [] then (Inl (Cmis (CmisException 405)), w')
          else (Inr (), w'\<lparr>rootFolder :=
                  update_at (butlast obj)
                    (\<lambda>p. with_children p (remove_child (last obj) (children p)))
                    (rootFolder w)\<rparr>)))"

text \<open>
  \<^verbatim>\<open>Folder.getTree().getResults()\<close>: the immediate children of the folder, in order;
  a document has no such method.
\<close>

definition getTree :: "objref \<Rightarrow> world \<Rightarrow> (exn + objref list) \<times> world" where
  "getTree obj w =
     (case node_at obj (rootFolder w) of
        Some (Folder n cs) \<Rightarrow>
          (let w' = received (GetTree obj) w in
           case map_of (faults w) (GetTree obj) of
             Some e \<Rightarrow> (Inl (Cmis e), w')
           | None \<Rightarrow> (Inr (map (\<lambda>c. obj @ [node_name c]) cs), w'))
      | _ \<Rightarrow> (Inl AttributeError, w))"

text \<open>\<^verbatim>\<open>CmisObject.getName()\<close>\<close>

definition getName :: "objref \<Rightarrow> string" where
  "getName obj = (if obj = [] then [] else last obj)"

text \<open>\<^verbatim>\<open>Folder.createFolder(name)\<close>: a new empty folder, after the existing children.\<close>

definition createFolder :: "objref \<Rightarrow> string \<Rightarrow> world \<Rightarrow> (exn + objref) \<times> world" where
  "createFolder obj nm w =
     (case node_at obj (rootFolder w) of
        Some (Folder n cs) \<Rightarrow>
          (let w' = received (CreateFolder obj nm) w in
           case map_of (faults w) (CreateFolder obj nm) of
             Some e \<Rightarrow> (Inl (Cmis e), w')
           | None \<Rightarrow>
               (Inr (obj @ [nm]),
                w'\<lparr>rootFolder := update_at obj (\<lambda>p. Folder n (cs @ [Folder nm []])) (rootFolder w)\<rparr>))
      | _ \<Rightarrow> (Inl AttributeError, w))"

text \<open>\<^verbatim>\<open>Folder.createDocument(name, contentFile=f)\<close>, with the bytes read from the file.\<close>

definition createDocument :: "objref \<Rightarrow> string \<Rightarrow> bytes \<Rightarrow> world \<Rightarrow> (exn + objref) \<times> world" where
  "createDocument obj nm b w =
     (case node_at obj (rootFolder w) of
        Some (Folder n cs) \<Rightarrow>
          (let w' = received (CreateDocument obj nm b) w in
           case map_of (faults w) (CreateDocument obj nm b) of
             Some e \<Rightarrow> (Inl (Cmis e), w')
           | None \<Rightarrow>
               (Inr (obj @ [nm]),
                w'\<lparr>rootFolder := update_at obj (\<lambda>p. Folder n (cs @ [Document nm b])) (rootFolder w)\<rparr>))
      | _ \<Rightarrow> (Inl AttributeError, w))"

subsection \<open>The local file system and its streams\<close>

text \<open>
  \<^verbatim>\<open>tempfile.mkdtemp()\<close> creates a directory that did not exist and returns its
  absolute path. The name chosen here is longer than every existing one.
\<close>

definition mkdtemp :: "world \<Rightarrow> string \<times> world" where
  "mkdtemp w =
     (let d = ''/tmp/tmp'' @ replicate (Suc (fold max (map length (dirs w)) 0)) (CHR ''x'')
      in (d, w\<lparr>dirs := d # dirs w\<rparr>))"

text \<open>
  \<^verbatim>\<open>shutil.rmtree(d)\<close>: the directory and the files in it are removed; it is an error
  when the directory does not exist.
\<close>

definition rmtree :: "string \<Rightarrow> world \<Rightarrow> (exn + unit) \<times> world" where
  "rmtree d w =
     (if d \<in> set (dirs w)
      then (Inr (), w\<lparr>dirs := removeAll d (dirs w),
                      files := filter (\<lambda>(p, b). fst (os_path_split p) \<noteq> d) (files w)\<rparr>)
      else (Inl (NoSuchFileError d), w))"

text \<open>
  An open file object of \<^verbatim>\<open>io\<close>: the path it was opened at, its mode, whether it is
  closed, and its position. Its content is the content of the file at that path.
\<close>

record stream =
  s_name :: string
  s_mode :: string
  s_closed :: bool
  s_pos :: nat

text \<open>
  The mode check of \<^verbatim>\<open>io.open\<close>: known characters, none twice, not both text and
  binary, exactly one of create, read, write, append.
\<close>

definition valid_mode :: "string \<Rightarrow> bool" where
  "valid_mode mode =
     (set mode \<subseteq> set ''axrwb+t'' \<and> distinct mode \<and>
      \<not> (CHR ''t'' \<in> set mode \<and> CHR ''b'' \<in> set mode) \<and>
      length (filter (\<lambda>c. c \<in> set ''xrwa'') mode) = 1)"

definition readable :: "string \<Rightarrow> bool" where
  "readable mode = (CHR ''r'' \<in> set mode \<or> CHR ''+'' \<in> set mode)"

definition writable :: "string \<Rightarrow> bool" where
  "writable mode =
     (CHR ''w'' \<in> set mode \<or> CHR ''a'' \<in> set mode \<or> CHR ''x'' \<in> set mode \<or> CHR ''+'' \<in> set mode)"

text \<open>
  \<^verbatim>\<open>io.open(path, mode=mode, encoding=encoding)\<close>. The directory of the path must exist
  and its last component must name a file: an empty last component, \<^verbatim>\<open>.\<close> and \<^verbatim>\<open>..\<close>
  name directories. Reading needs an existing file, writing truncates or creates it,
  appending keeps it and starts at its end, creating needs it not to exist.
\<close>

definition io_open :: "string \<Rightarrow> string \<Rightarrow> string option \<Rightarrow> world \<Rightarrow> (exn + stream) \<times> world" where
  "io_open path mode encoding w =
     (let s = \<lparr>s_name = path, s_mode = mode, s_closed = False, s_pos = 0\<rparr> in
      if \<not> valid_mode mode \<or> (CHR ''b'' \<in> set mode \<and> encoding \<noteq> None) then (Inl ValueError, w)
      else if fst (os_path_split path) \<notin> set (dirs w) then (Inl (NoSuchFileError path), w)
      else if snd (os_path_split path) \<in> {[], ''.'', ''..''} then (Inl (IsADirectoryError path), w)
      else if CHR ''r'' \<in> set mode then
        (case map_of (files w) path of
           None \<Rightarrow> (Inl (NoSuchFileError path), w)
         | Some _ \<Rightarrow> (Inr s, w))
      else if CHR ''w'' \<in> set mode then (Inr s, w\<lparr>files := AList.update path [] (files w)\<rparr>)
      else if CHR ''a'' \<in> set mode then
        (case map_of (files w) path of
           None \<Rightarrow> (Inr s, w\<lparr>files := AList.update path [] (files w)\<rparr>)
         | Some b \<Rightarrow> (Inr (s\<lparr>s_pos := length b\<rparr>), w))
      else
        (case map_of (files w) path of
           None \<Rightarrow> (Inr s, w\<lparr>files := AList.update path [] (files w)\<rparr>)
         | Some _ \<Rightarrow> (Inl (FileExistsError path), w)))"

text \<open>\<^verbatim>\<open>f.read()\<close>: everything from the position to the end.\<close>

definition stream_read :: "stream \<Rightarrow> world \<Rightarrow> (exn + bytes) \<times> stream" where
  "stream_read s w =
     (if s_closed s then (Inl ValueError, s)
      else if \<not> readable (s_mode s) then (Inl UnsupportedOperation, s)
      else case map_of (files w) (s_name s) of
             None \<Rightarrow> (Inl (NoSuchFileError (s_name s)), s)
           | Some b \<Rightarrow> (Inr (drop (s_pos s) b), s\<lparr>s_pos := max (s_pos s) (length b)\<rparr>))"

text \<open>
  \<^verbatim>\<open>f.write(data)\<close>: at the end of the file in an append mode, at the position
  otherwise, over what is there.
\<close>

definition stream_write :: "stream \<Rightarrow> bytes \<Rightarrow> world \<Rightarrow> (exn + unit) \<times> stream \<times> world" where
  "stream_write s data w =
     (if s_closed s then (Inl ValueError, s, w)
      else if \<not> writable (s_mode s) then (Inl UnsupportedOperation, s, w)
      else case map_of (files w) (s_name s) of
             None \<Rightarrow> (Inl (NoSuchFileError (s_name s)), s, w)
           | Some b \<Rightarrow>
               (if CHR ''a'' \<in> set (s_mode s)
                then (Inr (), s\<lparr>s_pos := length b + length data\<rparr>,
                      w\<lparr>files := AList.update (s_name s) (b @ data) (files w)\<rparr>)
                else (Inr (), s\<lparr>s_pos := s_pos s + length data\<rparr>,
                      w\<lparr>files := AList.update (s_name s)
                          (take (s_pos s) b @ data @ drop (s_pos s + length data) b) (files w)\<rparr>)))"

text \<open>\<^verbatim>\<open>for data in chunks: f.write(data)\<close>, and \<^verbatim>\<open>f.writelines(lines)\<close>.\<close>

fun stream_writelines :: "stream \<Rightarrow> bytes list \<Rightarrow> world \<Rightarrow> (exn + unit) \<times> stream \<times> world" where
  "stream_writelines s [] w = (Inr (), s, w)"
| "stream_writelines s (data # rest) w =
     (case stream_write s data w of
        (Inl e, s', w') \<Rightarrow> (Inl e, s', w')
      | (Inr _, s', w') \<Rightarrow> stream_writelines s' rest w')"

subsection \<open>\<^verbatim>\<open>CmisStorage\<close>\<close>

text \<open>
  The storage holds the repository only, which is part of the world here.
  \<^verbatim>\<open>_get_object\<close> turns the repository's \<^verbatim>\<open>ObjectNotFoundException\<close> into
  \<^verbatim>\<open>FileNotFoundError(name)\<close> and lets every other failure through.
\<close>

definition CmisStorage_get_object :: "string \<Rightarrow> world \<Rightarrow> (exn + objref) \<times> world" where
  "CmisStorage_get_object name w =
     (case getObjectByPath name w of
        (Inl (Cmis (ObjectNotFoundException _)), w') \<Rightarrow> (Inl (FileNotFoundError name), w')
      | r \<Rightarrow> r)"

text \<open>
  \<^verbatim>\<open>delete\<close>: a \<^verbatim>\<open>RuntimeException\<close> of the object's \<^verbatim>\<open>delete\<close> becomes
  \<^verbatim>\<open>FileNotFoundError(name)\<close>.
\<close>

definition CmisStorage_delete :: "string \<Rightarrow> bool \<Rightarrow> world \<Rightarrow> (exn + unit) \<times> world" where
  "CmisStorage_delete name all_versions w =
     (case CmisStorage_get_object name w of
        (Inl e, w1) \<Rightarrow> (Inl e, w1)
      | (Inr obj, w1) \<Rightarrow>
         (case delete_object obj all_versions w1 of
            (Inl (Cmis (RuntimeException _)), w2) \<Rightarrow> (Inl (FileNotFoundError name), w2)
          | r \<Rightarrow> r))"

definition CmisStorage_exists :: "string \<Rightarrow> world \<Rightarrow> (exn + bool) \<times> world" where
  "CmisStorage_exists name w =
     (case CmisStorage_get_object name w of
        (Inl (FileNotFoundError _), w') \<Rightarrow> (Inr False, w')
      | (Inl e, w') \<Rightarrow> (Inl e, w')
      | (Inr _, w') \<Rightarrow> (Inr True, w'))"

subsection \<open>\<^verbatim>\<open>CmisFile\<close>\<close>

text \<open>
  The attributes of a handle. \<open>cmis_object\<close> is the documented attribute, set in
  \<^verbatim>\<open>__init__\<close>; \<open>cmis_obj\<close> is the attribute \<^verbatim>\<open>_download\<close> and \<^verbatim>\<open>_upload\<close> assign
  (\<open>None\<close>: not assigned yet). \<open>stream\<close> is \<^verbatim>\<open>_stream\<close>, assigned at the end of
  \<^verbatim>\<open>_open\<close>.
\<close>

record CmisFile =
  cmis_object :: "objref option"
  cmis_obj :: "objref option"
  name :: string
  should_download :: bool
  has_changed :: bool
  temporary_directory :: string
  stream :: "stream option"

type_synonym 'a result = "(exn + 'a) \<times> CmisFile \<times> world"

definition make_temporary_directory :: "CmisFile \<Rightarrow> world \<Rightarrow> CmisFile \<times> world" where
  "make_temporary_directory self w =
     (case mkdtemp w of (d, w') \<Rightarrow> (self\<lparr>temporary_directory := d\<rparr>, w'))"

definition remove_temporary_directory :: "CmisFile \<Rightarrow> world \<Rightarrow> unit result" where
  "remove_temporary_directory self w =
     (case rmtree (temporary_directory self) w of (r, w') \<Rightarrow> (r, self, w'))"

definition temporary_filename :: "CmisFile \<Rightarrow> string" where
  "temporary_filename self =
     os_path_join (temporary_directory self) (os_path_basename (name self))"

text \<open>
  \<^verbatim>\<open>_download\<close>: the local file is opened for writing first, then the object is
  resolved and its chunks are written in order. The \<^verbatim>\<open>with\<close> block closes the local
  file on every way out.
\<close>

definition download :: "CmisFile \<Rightarrow> world \<Rightarrow> unit result" where
  "download self w =
     (case io_open (temporary_filename self) ''wb'' None w of
        (Inl e, w1) \<Rightarrow> (Inl e, self, w1)
      | (Inr f, w1) \<Rightarrow>
         (case CmisStorage_get_object (name self) w1 of
            (Inl e, w2) \<Rightarrow> (Inl e, self, w2)
          | (Inr obj, w2) \<Rightarrow>
             (let self' = self\<lparr>cmis_obj := Some obj\<rparr> in
              case getContentStream obj w2 of
                (Inl e, w3) \<Rightarrow> (Inl e, self', w3)
              | (Inr chunks, w3) \<Rightarrow>
                 (case stream_writelines f chunks w3 of (r, f', w4) \<Rightarrow> (r, self', w4)))))"

definition download_or_mark_changed :: "string \<Rightarrow> CmisFile \<Rightarrow> world \<Rightarrow> unit result" where
  "download_or_mark_changed mode self w =
     (case download self w of
        (Inl (FileNotFoundError n), self', w') \<Rightarrow>
          (if CHR ''a'' \<in> set mode then (Inr (), self'\<lparr>has_changed := True\<rparr>, w')
           else (Inl (FileNotFoundError n), self', w'))
      | r \<Rightarrow> r)"

definition CmisFile_open :: "string \<Rightarrow> string option \<Rightarrow> CmisFile \<Rightarrow> world \<Rightarrow> unit result" where
  "CmisFile_open mode encoding self w =
     (case make_temporary_directory self w of
        (self1, w1) \<Rightarrow>
         (case (if should_download self1 then download_or_mark_changed mode self1 w1
                else (Inr (), self1, w1)) of
            (Inl e, self2, w2) \<Rightarrow> (Inl e, self2, w2)
          | (Inr _, self2, w2) \<Rightarrow>
             (case io_open (temporary_filename self2) mode encoding w2 of
                (Inl e, w3) \<Rightarrow> (Inl e, self2, w3)
              | (Inr s, w3) \<Rightarrow> (Inr (), self2\<lparr>stream := Some s\<rparr>, w3))))"

text \<open>
  \<^verbatim>\<open>__init__\<close>. When \<^verbatim>\<open>_open\<close> raises, the caller gets no handle; what was done to
  the world stays done.
\<close>

definition CmisFile_init :: "string \<Rightarrow> string \<Rightarrow> string option \<Rightarrow> world \<Rightarrow> (exn + CmisFile) \<times> world" where
  "CmisFile_init nm mode encoding w =
     (let self = \<lparr>cmis_object = None, cmis_obj = None,
                  name = (if \<not> startswith_slash nm then ''/'' @ nm else nm),
                  should_download = (CHR ''r'' \<in> set mode \<or> CHR ''a'' \<in> set mode),
                  has_changed = (CHR ''w'' \<in> set mode),
                  temporary_directory = [], stream = None\<rparr>
      in case CmisFile_open mode encoding self w of
           (Inl e, self', w') \<Rightarrow> (Inl e, w')
         | (Inr _, self', w') \<Rightarrow> (Inr self', w'))"


text \<open>
  The loop of \<^verbatim>\<open>_upload\<close> over \<^verbatim>\<open>dirpath.split('/')\<close>: empty names are skipped; for
  each other name the results of \<^verbatim>\<open>getTree\<close> are searched for the first object of that
  name, which becomes the current folder; when there is none, the folder is created.
\<close>

fun create_folders :: "string list \<Rightarrow> objref \<Rightarrow> world \<Rightarrow> (exn + objref) \<times> world" where
  "create_folders [] obj w = (Inr obj, w)"
| "create_folders (dirname # rest) obj w =
     (if dirname \<noteq> [] then
        (case getTree obj w of
           (Inl e, w1) \<Rightarrow> (Inl e, w1)
         | (Inr rs, w1) \<Rightarrow>
            (case find (\<lambda>d. getName d = dirname) rs of
               None \<Rightarrow>
                 (case createFolder obj dirname w1 of
                    (Inl e, w2) \<Rightarrow> (Inl e, w2)
                  | (Inr obj', w2) \<Rightarrow> create_folders rest obj' w2)
             | Some folder_obj \<Rightarrow> create_folders rest folder_obj w1))
      else create_folders rest obj w)"

text \<open>
  The body of the \<^verbatim>\<open>try\<close> in \<^verbatim>\<open>_upload\<close>: resolve the object and replace its
  content with the bytes of the local file \<open>f\<close>.
\<close>

definition upload_replace :: "stream \<Rightarrow> CmisFile \<Rightarrow> world \<Rightarrow> unit result" where
  "upload_replace f self w =
     (case CmisStorage_get_object (name self) w of
        (Inl e, w1) \<Rightarrow> (Inl e, self, w1)
      | (Inr obj, w1) \<Rightarrow>
         (let self' = self\<lparr>cmis_obj := Some obj\<rparr> in
          case fst (stream_read f w1) of
            Inl e \<Rightarrow> (Inl e, self', w1)
          | Inr b \<Rightarrow> (case setContentStream obj b w1 of (r, w2) \<Rightarrow> (r, self', w2))))"

text \<open>
  The handler of \<^verbatim>\<open>FileNotFoundError\<close> in \<^verbatim>\<open>_upload\<close>: walk and create the folders
  from the root folder, then create the document in the last one.
\<close>

definition upload_create :: "stream \<Rightarrow> CmisFile \<Rightarrow> world \<Rightarrow> unit result" where
  "upload_create f self w =
     (case os_path_split (name self) of
        (dirpath, filename) \<Rightarrow>
         (case create_folders (split_slash dirpath) [] w of
            (Inl e, w1) \<Rightarrow> (Inl e, self, w1)
          | (Inr obj, w1) \<Rightarrow>
             (case fst (stream_read f w1) of
                Inl e \<Rightarrow> (Inl e, self, w1)
              | Inr b \<Rightarrow>
                 (case createDocument obj filename b w1 of
                    (Inl e, w2) \<Rightarrow> (Inl e, self, w2)
                  | (Inr doc, w2) \<Rightarrow> (Inr (), self\<lparr>cmis_obj := Some doc\<rparr>, w2)))))"

definition upload :: "CmisFile \<Rightarrow> world \<Rightarrow> unit result" where
  "upload self w =
     (case io_open (temporary_filename self) ''rb'' None w of
        (Inl e, w1) \<Rightarrow> (Inl e, self, w1)
      | (Inr f, w1) \<Rightarrow>
         (case upload_replace f self w1 of
            (Inl (FileNotFoundError _), self', w2) \<Rightarrow> upload_create f self' w2
          | r \<Rightarrow> r))"

text \<open>The property \<^verbatim>\<open>closed\<close> reads the stream's flag.\<close>

definition closed :: "CmisFile \<Rightarrow> exn + bool" where
  "closed self = (case stream self of None \<Rightarrow> Inl AttributeError | Some s \<Rightarrow> Inr (s_closed s))"

text \<open>
  \<^verbatim>\<open>close\<close>: nothing when the stream is closed already; otherwise the stream is closed,
  the file is uploaded when it has changed, and the temporary directory is removed. The
  three statements follow each other with no handler around them.
\<close>

definition CmisFile_close :: "CmisFile \<Rightarrow> world \<Rightarrow> unit result" where
  "CmisFile_close self w =
     (case stream self of
        None \<Rightarrow> (Inl AttributeError, self, w)
      | Some s \<Rightarrow>
         (if \<not> s_closed s then
            (let self1 = self\<lparr>stream := Some (s\<lparr>s_closed := True\<rparr>)\<rparr> in
             case (if has_changed self1 then upload self1 w else (Inr (), self1, w)) of
               (Inl e, self2, w2) \<Rightarrow> (Inl e, self2, w2)
             | (Inr _, self2, w2) \<Rightarrow> remove_temporary_directory self2 w2)
          else (Inr (), self, w)))"

definition CmisFile_read :: "CmisFile \<Rightarrow> world \<Rightarrow> bytes result" where
  "CmisFile_read self w =
     (case stream self of
        None \<Rightarrow> (Inl AttributeError, self, w)
      | Some s \<Rightarrow> (case stream_read s w of (r, s') \<Rightarrow> (r, self\<lparr>stream := Some s'\<rparr>, w)))"

text \<open>\<^verbatim>\<open>write\<close> and \<^verbatim>\<open>writelines\<close> set \<^verbatim>\<open>_has_changed\<close> before they write.\<close>

definition CmisFile_write :: "bytes \<Rightarrow> CmisFile \<Rightarrow> world \<Rightarrow> unit result" where
  "CmisFile_write data self w =
     (let self1 = self\<lparr>has_changed := True\<rparr> in
      case stream self1 of
        None \<Rightarrow> (Inl AttributeError, self1, w)
      | Some s \<Rightarrow>
         (case stream_write s data w of (r, s', w') \<Rightarrow> (r, self1\<lparr>stream := Some s'\<rparr>, w')))"

definition CmisFile_writelines :: "bytes list \<Rightarrow> CmisFile \<Rightarrow> world \<Rightarrow> unit result" where
  "CmisFile_writelines lines self w =
     (let self1 = self\<lparr>has_changed := True\<rparr> in
      case stream self1 of
        None \<Rightarrow> (Inl AttributeError, self1, w)
      | Some s \<Rightarrow>
         (case stream_writelines s lines w of (r, s', w') \<Rightarrow> (r, self1\<lparr>stream := Some s'\<rparr>, w')))"

subsection \<open>Notions used to state the properties\<close>

text \<open>
  A small world to run the code on: one folder with one document, no temporary
  directory yet. The repository answers two calls with a failure: the deletion of the
  document (status 500, as for a document already removed on the server) and the
  replacement of its content by \<open>''new''\<close> (status 403).
\<close>

definition demo_world :: world where
  "demo_world =
     \<lparr>rootFolder = Folder [] [Folder ''folder'' [Document ''file.txt'' ''old'']],
      faults = [(Delete [''folder'', ''file.txt''] False, RuntimeException 500),
                (SetContentStream [''folder'', ''file.txt''] ''new'', CmisException 403)],
      calls = [], chunk_size = 2, dirs = [], files = []\<rparr>"

text \<open>The same repository with no failures set.\<close>

definition plain_world :: world where
  "plain_world = demo_world\<lparr>faults := []\<rparr>"

text \<open>
  The handle and the world as they are after \<^verbatim>\<open>f = storage.open('/folder/file.txt', 'w')\<close>
  and \<^verbatim>\<open>f.write('new')\<close>.
\<close>

definition staged_handle :: CmisFile where
  "staged_handle =
     \<lparr>cmis_object = None, cmis_obj = None, name = ''/folder/file.txt'',
      should_download = False, has_changed = True, temporary_directory = ''/tmp/tmpx'',
      stream = Some \<lparr>s_name = ''/tmp/tmpx/file.txt'', s_mode = ''w'', s_closed = False,
                     s_pos = 3\<rparr>\<rparr>"

definition staged_world :: "world \<Rightarrow> world" where
  "staged_world w = w\<lparr>dirs := [''/tmp/tmpx''], files := [(''/tmp/tmpx/file.txt'', ''new'')]\<rparr>"

text \<open>A step of the code leaves the local files and the repository's settings alone.\<close>

definition repository_only :: "world \<Rightarrow> world \<Rightarrow> bool" where
  "repository_only w w' =
     (dirs w' = dirs w \<and> files w' = files w \<and> faults w' = faults w \<and>
      chunk_size w' = chunk_size w)"

text \<open>The same handle once its stream is closed, and once the upload has resolved the document.\<close>

definition closing_handle :: CmisFile where
  "closing_handle =
     staged_handle\<lparr>stream := Some \<lparr>s_name = ''/tmp/tmpx/file.txt'', s_mode = ''w'',
                                      s_closed = True, s_pos = 3\<rparr>\<rparr>"

definition closed_handle :: CmisFile where
  "closed_handle = closing_handle\<lparr>cmis_obj := Some [''folder'', ''file.txt'']\<rparr>"

text \<open>The repository after the document's content has been replaced by \<open>''new''\<close>.\<close>

definition uploaded_world :: world where
  "uploaded_world =
     plain_world\<lparr>rootFolder := Folder [] [Folder ''folder'' [Document ''file.txt'' ''new'']],
        calls := [GetObjectByPath ''/folder/file.txt'',
                  SetContentStream [''folder'', ''file.txt''] ''new'']\<rparr>"

text \<open>The repository after it has refused to replace the document's content.\<close>

definition refused_world :: world where
  "refused_world =
     staged_world (demo_world\<lparr>calls := [GetObjectByPath ''/folder/file.txt'',
                  SetContentStream [''folder'', ''file.txt''] ''new'']\<rparr>)"


text \<open>The number of lookups by path (\<^verbatim>\<open>getObjectByPath\<close>) a repository has received.\<close>

fun is_resolve :: "call \<Rightarrow> bool" where
  "is_resolve (GetObjectByPath _) = True"
| "is_resolve _ = False"

definition resolves :: "world \<Rightarrow> nat" where
  "resolves w = length (filter is_resolve (calls w))"

text \<open>
  A handle is staged when its stream is open and its local file exists in its temporary
  directory: the state \<^verbatim>\<open>__init__\<close> leaves it in and reads and writes keep.
\<close>

definition staged :: "CmisFile \<Rightarrow> world \<Rightarrow> bool" where
  "staged self w =
     ((case stream self of None \<Rightarrow> False | Some s \<Rightarrow> \<not> s_closed s) \<and>
      temporary_directory self \<in> set (dirs w) \<and>
      fst (os_path_split (temporary_filename self)) = temporary_directory self \<and>
      snd (os_path_split (temporary_filename self)) \<notin> {[], ''.'', ''..''} \<and>
      map_of (files w) (temporary_filename self) \<noteq> None)"

text \<open>The handle and the world right after \<^verbatim>\<open>storage.open('/folder/file.txt', 'w')\<close>.\<close>

definition opened_handle :: CmisFile where
  "opened_handle =
     staged_handle\<lparr>stream := Some \<lparr>s_name = ''/tmp/tmpx/file.txt'', s_mode = ''w'',
                                     s_closed = False, s_pos = 0\<rparr>\<rparr>"

definition opened_world :: world where
  "opened_world = plain_world\<lparr>dirs := [''/tmp/tmpx''], files := [(''/tmp/tmpx/file.txt'', [])]\<rparr>"

text \<open>
  The folders can be walked along the names \<open>segs\<close> from a node when that node is a
  folder and, as long as a child of the next name is found, that child can be walked
  along the rest. Where no child of the name is found the walk creates the rest.
\<close>

fun walkable :: "node \<Rightarrow> string list \<Rightarrow> bool" where
  "walkable n [] = is_folder n"
| "walkable n (s # ss) =
     (is_folder n \<and>
      (case find (\<lambda>c. node_name c = s) (children n) of
         None \<Rightarrow> True
       | Some c \<Rightarrow> walkable c ss))"

text \<open>
  The calls expected of a walk along \<open>segs\<close> below the folder \<open>pre\<close>, told from the tree
  \<open>root\<close> as it is before the walk: the children of each folder on the way are listed,
  and a folder is created for a name exactly when the path to it does not resolve.
\<close>

fun expected_walk :: "node \<Rightarrow> objref \<Rightarrow> string list \<Rightarrow> call list" where
  "expected_walk root pre [] = []"
| "expected_walk root pre (s # ss) =
     GetTree pre #
     (if node_at (pre @ [s]) root = None then [CreateFolder pre s] else []) @
     expected_walk root (pre @ [s]) ss"

text \<open>
  What a completed walk along \<open>segs\<close> below \<open>obj\<close> leaves: the expected calls were sent,
  nothing but the repository changed, the last folder exists, and a path below it that
  did not resolve before does not resolve now.
\<close>

definition walked :: "world \<Rightarrow> objref \<Rightarrow> string list \<Rightarrow> world \<Rightarrow> bool" where
  "walked w obj segs w' =
     (calls w' = calls w @ expected_walk (rootFolder w) obj segs \<and>
      repository_only w w' \<and>
      (\<exists>m. node_at (obj @ segs) (rootFolder w') = Some m \<and> is_folder m) \<and>
      (\<forall>q. q \<noteq> [] \<longrightarrow> node_at (obj @ segs @ q) (rootFolder w) = None \<longrightarrow>
           node_at (obj @ segs @ q) (rootFolder w') = None))"

text \<open>The calls of the creation protocol: listing children, creating a folder or a document.\<close>

fun is_creation :: "call \<Rightarrow> bool" where
  "is_creation (GetTree _) = True"
| "is_creation (CreateFolder _ _) = True"
| "is_creation (CreateDocument _ _ _) = True"
| "is_creation _ = False"

text \<open>
  The handle and the world after \<^verbatim>\<open>f = storage.open('/folder/b/c.txt', 'w')\<close> and
  \<^verbatim>\<open>f.write('new')\<close>: the folder exists, the folder \<^verbatim>\<open>b\<close> and the document do not.
\<close>

definition fresh_handle :: CmisFile where
  "fresh_handle =
     \<lparr>cmis_object = None, cmis_obj = None, name = ''/folder/b/c.txt'',
      should_download = False, has_changed = True, temporary_directory = ''/tmp/tmpx'',
      stream = Some \<lparr>s_name = ''/tmp/tmpx/c.txt'', s_mode = ''w'', s_closed = False,
                     s_pos = 3\<rparr>\<rparr>"

definition fresh_world :: world where
  "fresh_world = plain_world\<lparr>dirs := [''/tmp/tmpx''], files := [(''/tmp/tmpx/c.txt'', ''new'')]\<rparr>"

text \<open>
  The repository carries out the calls of the creation protocol: none of them is among
  the calls it is set to fail.
\<close>

definition accepts_creation :: "world \<Rightarrow> bool" where
  "accepts_creation w = list_all (\<lambda>(c, e). \<not> is_creation c) (faults w)"

text \<open>
  The local file of a handle holds \<open>b\<close>: its directory exists, its last component names a
  file, and the file is there with that content.
\<close>

definition local_file :: "CmisFile \<Rightarrow> world \<Rightarrow> bytes \<Rightarrow> bool" where
  "local_file self w b =
     (fst (os_path_split (temporary_filename self)) \<in> set (dirs w) \<and>
      snd (os_path_split (temporary_filename self)) \<notin> {[], ''.'', ''..''} \<and>
      map_of (files w) (temporary_filename self) = Some b)"
section \<open>Properties\<close>

subsection \<open>Error translation in \<^verbatim>\<open>CmisStorage\<close>\<close>

lemma get_object_NotFound:
  "fst (getObjectByPath nm w) = Inl (Cmis (ObjectNotFoundException st)) \<Longrightarrow>
   CmisStorage_get_object nm w = (Inl (FileNotFoundError nm), received (GetObjectByPath nm) w)"
  by (auto simp: CmisStorage_get_object_def getObjectByPath_def Let_def split: option.splits)

lemma get_object_Inr:
  "getObjectByPath nm w = (Inr obj, w1) \<Longrightarrow> CmisStorage_get_object nm w = (Inr obj, w1)"
  by (simp add: CmisStorage_get_object_def)

lemma demo_resolve:
  "getObjectByPath ''/folder/file.txt'' demo_world =
     (Inr [''folder'', ''file.txt''], received (GetObjectByPath ''/folder/file.txt'') demo_world)"
  by (simp add: getObjectByPath_def demo_world_def path_segments_def received_def)

lemma demo_missing:
  "fst (getObjectByPath ''/nothing.txt'' demo_world) = Inl (Cmis (ObjectNotFoundException 404))"
  by (simp add: getObjectByPath_def demo_world_def path_segments_def received_def)

lemma demo_delete_fails:
  "delete_object [''folder'', ''file.txt''] False
     (received (GetObjectByPath ''/folder/file.txt'') demo_world) =
   (Inl (Cmis (RuntimeException 500)),
    received (Delete [''folder'', ''file.txt''] False)
      (received (GetObjectByPath ''/folder/file.txt'') demo_world))"
  by (simp add: delete_object_def demo_world_def received_def)

text \<open>
  C9. \<open>delete\<close> raises \<open>FileNotFoundError\<close> carrying the name in both cases: when the
  lookup of the path reports that there is no such object, and when the lookup succeeds
  and the object's own \<open>delete\<close> call fails with a \<open>RuntimeException\<close>.
\<close>

theorem delete_raises_not_found_on_both_triggers:
  assumes "fst (getObjectByPath nm w) = Inl (Cmis (ObjectNotFoundException st)) \<or>
           (\<exists>obj w1. getObjectByPath nm w = (Inr obj, w1) \<and>
              fst (delete_object obj all_versions w1) = Inl (Cmis (RuntimeException st)))"
  shows "fst (CmisStorage_delete nm all_versions w) = Inl (FileNotFoundError nm)"
  using assms
proof
  assume "fst (getObjectByPath nm w) = Inl (Cmis (ObjectNotFoundException st))"
  then show ?thesis
    by (simp add: CmisStorage_delete_def get_object_NotFound)
next
  assume "\<exists>obj w1. getObjectByPath nm w = (Inr obj, w1) \<and>
            fst (delete_object obj all_versions w1) = Inl (Cmis (RuntimeException st))"
  then obtain obj w1 where r: "getObjectByPath nm w = (Inr obj, w1)"
    and d: "fst (delete_object obj all_versions w1) = Inl (Cmis (RuntimeException st))"
    by blast
  obtain w2 where d2: "delete_object obj all_versions w1 = (Inl (Cmis (RuntimeException st)), w2)"
    using d by (cases "delete_object obj all_versions w1") simp
  show ?thesis
    by (simp add: CmisStorage_delete_def get_object_Inr [OF r] d2)
qed

theorem delete_raises_not_found_on_both_triggers_witness:
  "fst (CmisStorage_delete ''/nothing.txt'' False demo_world) =
     Inl (FileNotFoundError ''/nothing.txt'') \<and>
   fst (CmisStorage_delete ''/folder/file.txt'' False demo_world) =
     Inl (FileNotFoundError ''/folder/file.txt'')"
proof
  show "fst (CmisStorage_delete ''/nothing.txt'' False demo_world) =
          Inl (FileNotFoundError ''/nothing.txt'')"
    using demo_missing
      delete_raises_not_found_on_both_triggers [of "''/nothing.txt''" demo_world 404 False]
    by blast
next
  have "fst (delete_object [''folder'', ''file.txt''] False
          (received (GetObjectByPath ''/folder/file.txt'') demo_world)) =
        Inl (Cmis (RuntimeException 500))"
    by (simp add: demo_delete_fails)
  with demo_resolve
  show "fst (CmisStorage_delete ''/folder/file.txt'' False demo_world) =
          Inl (FileNotFoundError ''/folder/file.txt'')"
    using delete_raises_not_found_on_both_triggers [of "''/folder/file.txt''" demo_world 500 False]
    by blast
qed

lemma getObjectByPath_Inr:
  "getObjectByPath nm w = (Inr obj, w1) \<Longrightarrow>
   node_at obj (rootFolder w) \<noteq> None \<and> rootFolder w1 = rootFolder w \<and> faults w1 = faults w"
  by (auto simp: getObjectByPath_def received_def Let_def split: option.splits)

lemma delete_object_Inl:
  "delete_object obj av w1 = (Inl e, w2) \<Longrightarrow> rootFolder w2 = rootFolder w1"
  by (auto simp: delete_object_def received_def Let_def split: option.splits if_splits)

text \<open>
  C10. Whenever the object's \<open>delete\<close> call fails with a \<open>RuntimeException\<close>, of
  whatever status, \<open>delete\<close> raises \<open>FileNotFoundError\<close> with the name: the failure is
  not looked at. This is so although the object is still there: the path resolved before
  the call, and the failed call left the repository as it was.
\<close>

theorem delete_reports_every_runtime_failure_as_not_found:
  assumes "getObjectByPath nm w = (Inr obj, w1)"
    and "delete_object obj all_versions w1 = (Inl (Cmis (RuntimeException status)), w2)"
  shows "CmisStorage_delete nm all_versions w = (Inl (FileNotFoundError nm), w2) \<and>
         node_at obj (rootFolder w2) \<noteq> None"
proof
  show "CmisStorage_delete nm all_versions w = (Inl (FileNotFoundError nm), w2)"
    by (simp add: CmisStorage_delete_def get_object_Inr [OF assms(1)] assms(2))
  show "node_at obj (rootFolder w2) \<noteq> None"
    using getObjectByPath_Inr [OF assms(1)] delete_object_Inl [OF assms(2)] by simp
qed

theorem delete_reports_every_runtime_failure_as_not_found_witness:
  "CmisStorage_delete ''/folder/file.txt'' False demo_world =
     (Inl (FileNotFoundError ''/folder/file.txt''),
      received (Delete [''folder'', ''file.txt''] False)
        (received (GetObjectByPath ''/folder/file.txt'') demo_world)) \<and>
   node_at [''folder'', ''file.txt'']
     (rootFolder (received (Delete [''folder'', ''file.txt''] False)
        (received (GetObjectByPath ''/folder/file.txt'') demo_world))) \<noteq> None"
  using delete_reports_every_runtime_failure_as_not_found [OF demo_resolve demo_delete_fails]
  by simp

subsection \<open>What a step changes\<close>

lemma repository_only_refl [simp]: "repository_only w w"
  by (simp add: repository_only_def)

lemma repository_only_trans:
  "repository_only w w1 \<Longrightarrow> repository_only w1 w2 \<Longrightarrow> repository_only w w2"
  by (simp add: repository_only_def)

lemma received_only [simp]: "repository_only w (received c w)"
  by (simp add: repository_only_def received_def)

lemma getObjectByPath_only: "getObjectByPath p w = (r, w') \<Longrightarrow> repository_only w w'"
  by (auto simp: getObjectByPath_def Let_def repository_only_def received_def split: option.splits)

lemma get_object_only: "CmisStorage_get_object p w = (r, w') \<Longrightarrow> repository_only w w'"
  by (auto simp: CmisStorage_get_object_def dest: getObjectByPath_only
      split: prod.splits sum.splits exn.splits cmis_error.splits)

lemma getContentStream_only: "getContentStream obj w = (r, w') \<Longrightarrow> repository_only w w'"
  by (auto simp: getContentStream_def Let_def repository_only_def received_def
      split: option.splits node.splits)

lemma setContentStream_only: "setContentStream obj b w = (r, w') \<Longrightarrow> repository_only w w'"
  by (auto simp: setContentStream_def Let_def repository_only_def received_def
      split: option.splits node.splits)

lemma getTree_only: "getTree obj w = (r, w') \<Longrightarrow> repository_only w w'"
  by (auto simp: getTree_def Let_def repository_only_def received_def
      split: option.splits node.splits)

lemma createFolder_only: "createFolder obj n w = (r, w') \<Longrightarrow> repository_only w w'"
  by (auto simp: createFolder_def Let_def repository_only_def received_def
      split: option.splits node.splits)

lemma createDocument_only: "createDocument obj n b w = (r, w') \<Longrightarrow> repository_only w w'"
  by (auto simp: createDocument_def Let_def repository_only_def received_def
      split: option.splits node.splits)

lemma create_folders_only: "create_folders raw obj w = (r, w') \<Longrightarrow> repository_only w w'"
proof (induction raw arbitrary: obj w)
  case Nil
  then show ?case by simp
next
  case (Cons dirname rest)
  show ?case
  proof (cases "dirname = []")
    case True
    with Cons show ?thesis by simp
  next
    case False
    obtain r1 w1 where t: "getTree obj w = (r1, w1)" by (cases "getTree obj w")
    have o1: "repository_only w w1" using getTree_only [OF t] .
    show ?thesis
    proof (cases r1)
      case (Inl e)
      with Cons.prems False t o1 show ?thesis by simp
    next
      case (Inr rs)
      show ?thesis
      proof (cases "find (\<lambda>d. getName d = dirname) rs")
        case None
        obtain r2 w2 where c: "createFolder obj dirname w1 = (r2, w2)"
          by (cases "createFolder obj dirname w1")
        have o2: "repository_only w w2"
          using o1 createFolder_only [OF c] by (rule repository_only_trans)
        show ?thesis
        proof (cases r2)
          case (Inl e)
          with Cons.prems False t Inr None c o2 show ?thesis by simp
        next
          case (Inr obj')
          with Cons.prems False t \<open>r1 = Inr rs\<close> None c
          have "create_folders rest obj' w2 = (r, w')" by simp
          from Cons.IH [OF this] o2 show ?thesis by (rule repository_only_trans [rotated])
        qed
      next
        case (Some folder_obj)
        with Cons.prems False t Inr
        have "create_folders rest folder_obj w1 = (r, w')" by simp
        from Cons.IH [OF this] o1 show ?thesis by (rule repository_only_trans [rotated])
      qed
    qed
  qed
qed

lemma io_open_read_world:
  "io_open p ''rb'' enc w = (r, w') \<Longrightarrow> w' = w"
  by (auto simp: io_open_def Let_def split: if_splits option.splits)

lemma upload_replace_frame:
  "upload_replace f self w = (r, self', w') \<Longrightarrow>
   repository_only w w' \<and> self'\<lparr>cmis_obj := x\<rparr> = self\<lparr>cmis_obj := x\<rparr>"
  by (auto simp: upload_replace_def Let_def dest: get_object_only setContentStream_only
      intro: repository_only_trans split: prod.splits sum.splits)

lemma upload_create_frame:
  "upload_create f self w = (r, self', w') \<Longrightarrow>
   repository_only w w' \<and> self'\<lparr>cmis_obj := x\<rparr> = self\<lparr>cmis_obj := x\<rparr>"
  by (auto simp: upload_create_def Let_def dest: create_folders_only createDocument_only
      intro: repository_only_trans split: prod.splits sum.splits)

lemma upload_frame:
  assumes "upload self w = (r, self', w')"
  shows "repository_only w w' \<and> self'\<lparr>cmis_obj := x\<rparr> = self\<lparr>cmis_obj := x\<rparr>"
proof -
  obtain r0 w0 where o: "io_open (temporary_filename self) ''rb'' None w = (r0, w0)"
    by (cases "io_open (temporary_filename self) ''rb'' None w")
  have w0: "w0 = w" using io_open_read_world [OF o] .
  show ?thesis
  proof (cases r0)
    case (Inl e)
    with assms o w0 show ?thesis by (simp add: upload_def)
  next
    case (Inr f)
    obtain r1 s1 w1 where u: "upload_replace f self w = (r1, s1, w1)"
      by (cases "upload_replace f self w")
    note f1 = upload_replace_frame [OF u, of x]
    show ?thesis
    proof (cases "\<exists>n. r1 = Inl (FileNotFoundError n)")
      case True
      then obtain n where "r1 = Inl (FileNotFoundError n)" by blast
      with assms o w0 Inr u have "upload_create f s1 w1 = (r, self', w')"
        by (simp add: upload_def)
      from upload_create_frame [OF this, of x] f1 show ?thesis
        by (auto intro: repository_only_trans)
    next
      case False
      with assms o w0 Inr u have "(r, self', w') = (r1, s1, w1)"
        by (auto simp: upload_def split: sum.splits exn.splits)
      with f1 show ?thesis by simp
    qed
  qed
qed

lemma upload_fields:
  assumes "upload self w = (r, self', w')"
  shows "stream self' = stream self" "temporary_directory self' = temporary_directory self"
    "has_changed self' = has_changed self" "name self' = name self"
    "cmis_object self' = cmis_object self"
proof -
  from upload_frame [OF assms, of None]
  have e: "self'\<lparr>cmis_obj := None\<rparr> = self\<lparr>cmis_obj := None\<rparr>" by simp
  have "stream (self'\<lparr>cmis_obj := None\<rparr>) = stream (self\<lparr>cmis_obj := None\<rparr>)"
    by (simp only: e)
  then show "stream self' = stream self" by simp
  have "temporary_directory (self'\<lparr>cmis_obj := None\<rparr>) = temporary_directory (self\<lparr>cmis_obj := None\<rparr>)"
    by (simp only: e)
  then show "temporary_directory self' = temporary_directory self" by simp
  have "has_changed (self'\<lparr>cmis_obj := None\<rparr>) = has_changed (self\<lparr>cmis_obj := None\<rparr>)"
    by (simp only: e)
  then show "has_changed self' = has_changed self" by simp
  have "name (self'\<lparr>cmis_obj := None\<rparr>) = name (self\<lparr>cmis_obj := None\<rparr>)"
    by (simp only: e)
  then show "name self' = name self" by simp
  have "cmis_object (self'\<lparr>cmis_obj := None\<rparr>) = cmis_object (self\<lparr>cmis_obj := None\<rparr>)"
    by (simp only: e)
  then show "cmis_object self' = cmis_object self" by simp
qed

subsection \<open>Closing a handle\<close>

lemma staged_reached:
  "(case CmisFile_init ''/folder/file.txt'' ''w'' None plain_world of
      (Inr h, w) \<Rightarrow>
        CmisFile_write ''new'' h w = (Inr (), staged_handle, staged_world plain_world)
    | (Inl e, w) \<Rightarrow> False)"
  by code_simp

lemma staged_close:
  "CmisFile_close staged_handle (staged_world plain_world) = (Inr (), closed_handle, uploaded_world)"
  by code_simp

lemma staged_upload:
  "upload closing_handle (staged_world plain_world) =
     (Inr (), closed_handle, staged_world uploaded_world)"
  by code_simp

lemma refused_upload:
  "upload closing_handle (staged_world demo_world) =
     (Inl (Cmis (CmisException 403)), closed_handle, refused_world)"
  by code_simp

text \<open>
  C8. After a close that has completed, a second close changes nothing and raises
  nothing: it returns the handle and the world as they are, so there is no second
  upload (the repository, with its log of calls, is the same) and no second removal of
  the temporary directory.
\<close>

theorem second_close_is_noop:
  assumes "CmisFile_close self w = (Inr (), self', w')"
  shows "CmisFile_close self' w' = (Inr (), self', w')"
proof (cases "stream self")
  case None
  with assms show ?thesis by (simp add: CmisFile_close_def)
next
  case (Some s)
  show ?thesis
  proof (cases "s_closed s")
    case True
    with assms Some show ?thesis by (auto simp: CmisFile_close_def)
  next
    case False
    define self1 where "self1 = self\<lparr>stream := Some (s\<lparr>s_closed := True\<rparr>)\<rparr>"
    have "stream self' = Some (s\<lparr>s_closed := True\<rparr>)"
    proof (cases "has_changed self")
      case True
      obtain r2 self2 w2 where u: "upload self1 w = (r2, self2, w2)"
        by (cases "upload self1 w")
      from assms Some False True u have "self' = self2"
        by (auto simp: CmisFile_close_def self1_def Let_def remove_temporary_directory_def
            split: sum.splits prod.splits)
      with upload_fields(1) [OF u] show ?thesis by (simp add: self1_def)
    next
      case False
      with assms Some \<open>\<not> s_closed s\<close> show ?thesis
        by (auto simp: CmisFile_close_def Let_def remove_temporary_directory_def
            split: prod.splits)
    qed
    then show ?thesis by (simp add: CmisFile_close_def)
  qed
qed

theorem second_close_is_noop_witness:
  "CmisFile_close staged_handle (staged_world plain_world) = (Inr (), closed_handle, uploaded_world) \<and>
   CmisFile_close closed_handle uploaded_world = (Inr (), closed_handle, uploaded_world)"
  using second_close_is_noop [OF staged_close] staged_close by simp

lemma staged_reached_with_faults:
  "(case CmisFile_init ''/folder/file.txt'' ''w'' None demo_world of
      (Inr h, w) \<Rightarrow>
        CmisFile_write ''new'' h w = (Inr (), staged_handle, staged_world demo_world)
    | (Inl e, w) \<Rightarrow> False)"
  by code_simp

lemma rmtree_removes:
  "d \<in> set (dirs w) \<Longrightarrow> \<exists>w'. rmtree d w = (Inr (), w') \<and> d \<notin> set (dirs w')"
  by (simp add: rmtree_def)

text \<open>
  C1, as the code has it. Closing an open handle that has changed removes the temporary
  directory when the upload completes. When the upload raises, \<open>close\<close> raises the same
  error at once: the removal is not reached and the temporary directory stays.
\<close>

theorem close_removes_directory_only_after_successful_upload:
  assumes "stream self = Some s" and "\<not> s_closed s" and "has_changed self"
    and "temporary_directory self \<in> set (dirs w)"
    and "upload (self\<lparr>stream := Some (s\<lparr>s_closed := True\<rparr>)\<rparr>) w = (r, self2, w2)"
  shows "(r = Inr () \<longrightarrow>
            (\<exists>w3. CmisFile_close self w = (Inr (), self2, w3) \<and>
                  temporary_directory self \<notin> set (dirs w3))) \<and>
         (\<forall>e. r = Inl e \<longrightarrow>
            CmisFile_close self w = (Inl e, self2, w2) \<and>
            temporary_directory self \<in> set (dirs w2))"
proof -
  have d: "dirs w2 = dirs w"
    using upload_frame [OF assms(5), of None] by (simp add: repository_only_def)
  have t: "temporary_directory self2 = temporary_directory self"
    using upload_fields(2) [OF assms(5)] by simp
  have c: "CmisFile_close self w =
             (case r of Inl e \<Rightarrow> (Inl e, self2, w2)
              | Inr u \<Rightarrow> remove_temporary_directory self2 w2)"
    using assms(1,2,3,5) by (simp add: CmisFile_close_def split: sum.splits)
  show ?thesis
  proof (intro conjI allI impI)
    assume "r = Inr ()"
    from rmtree_removes [of "temporary_directory self" w2] assms(4) d
    obtain w3 where "rmtree (temporary_directory self) w2 = (Inr (), w3)"
      and "temporary_directory self \<notin> set (dirs w3)" by auto
    with c \<open>r = Inr ()\<close> t
    show "\<exists>w3. CmisFile_close self w = (Inr (), self2, w3) \<and>
               temporary_directory self \<notin> set (dirs w3)"
      by (simp add: remove_temporary_directory_def)
  next
    fix e assume "r = Inl e"
    with c show "CmisFile_close self w = (Inl e, self2, w2)" by simp
  next
    fix e assume "r = Inl e"
    from assms(4) d show "temporary_directory self \<in> set (dirs w2)" by simp
  qed
qed

theorem close_removes_directory_only_after_successful_upload_witness:
  "(\<exists>w3. CmisFile_close staged_handle (staged_world plain_world) = (Inr (), closed_handle, w3) \<and>
         temporary_directory staged_handle \<notin> set (dirs w3)) \<and>
   CmisFile_close staged_handle (staged_world demo_world) =
     (Inl (Cmis (CmisException 403)), closed_handle, refused_world) \<and>
   temporary_directory staged_handle \<in> set (dirs refused_world)"
proof -
  have s: "stream staged_handle =
             Some \<lparr>s_name = ''/tmp/tmpx/file.txt'', s_mode = ''w'', s_closed = False, s_pos = 3\<rparr>"
    by (simp add: staged_handle_def)
  have n: "\<not> s_closed \<lparr>s_name = ''/tmp/tmpx/file.txt'', s_mode = ''w'', s_closed = False, s_pos = 3\<rparr>"
    by simp
  have h: "has_changed staged_handle" by (simp add: staged_handle_def)
  have d1: "temporary_directory staged_handle \<in> set (dirs (staged_world plain_world))"
    by (simp add: staged_handle_def staged_world_def)
  have d2: "temporary_directory staged_handle \<in> set (dirs (staged_world demo_world))"
    by (simp add: staged_handle_def staged_world_def)
  have u1: "upload (staged_handle\<lparr>stream := Some (\<lparr>s_name = ''/tmp/tmpx/file.txt'', s_mode = ''w'',
               s_closed = False, s_pos = 3\<rparr>\<lparr>s_closed := True\<rparr>)\<rparr>) (staged_world plain_world) =
            (Inr (), closed_handle, staged_world uploaded_world)"
    using staged_upload by (simp add: closing_handle_def)
  have u2: "upload (staged_handle\<lparr>stream := Some (\<lparr>s_name = ''/tmp/tmpx/file.txt'', s_mode = ''w'',
               s_closed = False, s_pos = 3\<rparr>\<lparr>s_closed := True\<rparr>)\<rparr>) (staged_world demo_world) =
            (Inl (Cmis (CmisException 403)), closed_handle, refused_world)"
    using refused_upload by (simp add: closing_handle_def)
  from close_removes_directory_only_after_successful_upload [OF s n h d1 u1]
    close_removes_directory_only_after_successful_upload [OF s n h d2 u2]
  show ?thesis by simp
qed

text \<open>
  C1, as stated, fails: the repository refuses the new content of the document, \<open>close\<close>
  raises that error, and the temporary directory of the handle is still there.
\<close>

theorem close_leaves_directory_when_upload_raises:
  "has_changed staged_handle \<and>
   fst (CmisFile_close staged_handle (staged_world demo_world)) = Inl (Cmis (CmisException 403)) \<and>
   temporary_directory staged_handle
     \<in> set (dirs (snd (snd (CmisFile_close staged_handle (staged_world demo_world)))))"
  by code_simp

subsection \<open>The documented attribute \<open>cmis_object\<close>\<close>

text \<open>
  C2 fails on the code. Opening the existing document for reading resolves it, and the
  resolved object is stored in the attribute \<open>cmis_obj\<close>; the documented attribute
  \<open>cmis_object\<close> is still \<open>None\<close>. The same holds after the upload at close.
\<close>

theorem cmis_object_is_never_assigned:
  "map_sum id cmis_object (fst (CmisFile_init ''/folder/file.txt'' ''r'' None plain_world)) = Inr None \<and>
   map_sum id cmis_obj (fst (CmisFile_init ''/folder/file.txt'' ''r'' None plain_world)) =
     Inr (Some [''folder'', ''file.txt'']) \<and>
   cmis_object (fst (snd (CmisFile_close staged_handle (staged_world plain_world)))) = None \<and>
   cmis_obj (fst (snd (CmisFile_close staged_handle (staged_world plain_world)))) =
     Some [''folder'', ''file.txt'']"
  by code_simp

subsection \<open>The local file of a handle\<close>

text \<open>
  C7 fails on the code. For the name \<^verbatim>\<open>..\<close> the constructor stores \<^verbatim>\<open>/..\<close>, whose
  basename is \<^verbatim>\<open>..\<close>; the local path handed to \<^verbatim>\<open>io.open\<close> is the temporary directory
  followed by \<^verbatim>\<open>/..\<close>, which is the parent of the temporary directory and not a path
  inside it. For a name that ends in a slash the basename is empty and the local path is
  the temporary directory itself.
\<close>

theorem temporary_filename_can_leave_the_directory:
  "fst (CmisFile_init ''..'' ''w'' None plain_world) = Inl (IsADirectoryError ''/tmp/tmpx/..'') \<and>
   dirs (snd (CmisFile_init ''..'' ''w'' None plain_world)) = [''/tmp/tmpx''] \<and>
   temporary_filename (staged_handle\<lparr>name := ''/..''\<rparr>) = ''/tmp/tmpx/..'' \<and>
   \<not> strictly_inside (temporary_directory (staged_handle\<lparr>name := ''/..''\<rparr>))
         (temporary_filename (staged_handle\<lparr>name := ''/..''\<rparr>)) \<and>
   temporary_filename (staged_handle\<lparr>name := ''/folder/''\<rparr>) = ''/tmp/tmpx/'' \<and>
   \<not> strictly_inside (temporary_directory (staged_handle\<lparr>name := ''/folder/''\<rparr>))
         (temporary_filename (staged_handle\<lparr>name := ''/folder/''\<rparr>)) \<and>
   strictly_inside (temporary_directory staged_handle) (temporary_filename staged_handle)"
  by code_simp

subsection \<open>Local files and paths\<close>

lemma io_open_Inr:
  assumes "io_open p m e w = (Inr s, w')"
  shows "fst (os_path_split p) \<in> set (dirs w)" "snd (os_path_split p) \<notin> {[], ''.'', ''..''}"
    "map_of (files w') p \<noteq> None" "dirs w' = dirs w" "calls w' = calls w"
    "rootFolder w' = rootFolder w" "faults w' = faults w" "chunk_size w' = chunk_size w"
    "s_name s = p" "\<not> s_closed s" "s_mode s = m" "valid_mode m"
    "\<not> (CHR ''b'' \<in> set m \<and> e \<noteq> None)"
  using assms
  by (auto simp: io_open_def Let_def update_conv' split: if_splits option.splits)

lemma io_open_Inl:
  assumes "io_open p m e w = (Inl x, w')"
  shows "w' = w"
  using assms
  by (auto simp: io_open_def Let_def split: if_splits option.splits)

lemma basename_no_slash: "CHR ''/'' \<notin> set (os_path_basename p)"
proof -
  have "\<forall>c \<in> set (takeWhile (\<lambda>c. c \<noteq> CHR ''/'') (rev p)). c \<noteq> CHR ''/''"
    by (auto dest: set_takeWhileD)
  then show ?thesis by (auto simp: os_path_basename_def)
qed

lemma takeWhile_all: "\<forall>x \<in> set xs. P x \<Longrightarrow> takeWhile P (xs @ y # ys) = (if P y then xs @ takeWhile P (y # ys) else xs)"
  by (induction xs) auto

lemma dropWhile_all: "\<forall>x \<in> set xs. P x \<Longrightarrow> dropWhile P (xs @ ys) = dropWhile P ys"
  by (induction xs) auto

lemma split_join:
  assumes "CHR ''/'' \<notin> set b" and "d \<noteq> []" and "last d \<noteq> CHR ''/''"
  shows "os_path_join d b = d @ ''/'' @ b" and "os_path_split (os_path_join d b) = (d, b)"
proof -
  have nb: "\<not> startswith_slash b"
    using assms(1) by (cases b) (auto simp: startswith_slash_def)
  show j: "os_path_join d b = d @ ''/'' @ b"
    using nb assms(2,3) by (simp add: os_path_join_def endswith_slash_def)
  have r: "rev (d @ ''/'' @ b) = rev b @ CHR ''/'' # rev d" by simp
  have ab: "\<forall>c \<in> set (rev b). c \<noteq> CHR ''/''" using assms(1) by auto
  have t: "takeWhile (\<lambda>c. c \<noteq> CHR ''/'') (rev b @ CHR ''/'' # rev d) = rev b"
    using takeWhile_all [OF ab, of "CHR ''/''" "rev d"] by simp
  have dd: "dropWhile (\<lambda>c. c \<noteq> CHR ''/'') (rev b @ CHR ''/'' # rev d) = CHR ''/'' # rev d"
    using dropWhile_all [OF ab, of "CHR ''/'' # rev d"] by simp
  have h: "hd (rev d) \<noteq> CHR ''/''" using assms(2,3) by (simp add: hd_rev)
  have rd: "rev d \<noteq> []" using assms(2) by simp
  have s: "rstrip_slash (d @ ''/'') = d"
    using h rd by (cases "rev d") (auto simp: rstrip_slash_def)
  have "last d \<in> set d" using assms(2) by simp
  have nd: "\<not> list_all (\<lambda>c. c = CHR ''/'') d"
  proof
    assume "list_all (\<lambda>c. c = CHR ''/'') d"
    then have "\<forall>c \<in> set d. c = CHR ''/''" by (simp add: list_all_iff)
    with \<open>last d \<in> set d\<close> have "last d = CHR ''/''" by blast
    with assms(3) show False by simp
  qed
  have "os_path_split (d @ ''/'' @ b) = (d, b)"
    by (simp add: os_path_split_def Let_def t dd s nd)
  then show "os_path_split (os_path_join d b) = (d, b)"
    by (simp only: j)
qed

lemma last_app_replicate: "last (xs @ replicate (Suc k) c) = c"
  by (cases k) (simp_all add: last_replicate)

lemma mkdtemp_props:
  assumes "mkdtemp w = (d, w')"
  shows "d \<noteq> []" "last d \<noteq> CHR ''/''" "dirs w' = d # dirs w" "files w' = files w"
    "calls w' = calls w" "rootFolder w' = rootFolder w" "faults w' = faults w"
    "chunk_size w' = chunk_size w"
proof -
  have d: "d = ''/tmp/tmp'' @ replicate (Suc (fold max (map length (dirs w)) 0)) (CHR ''x'')"
    and w': "w' = w\<lparr>dirs := d # dirs w\<rparr>"
    using assms by (auto simp: mkdtemp_def Let_def)
  show "d \<noteq> []" by (simp add: d)
  show "last d \<noteq> CHR ''/''" by (simp only: d last_app_replicate) simp
  show "dirs w' = d # dirs w" "files w' = files w" "calls w' = calls w"
    "rootFolder w' = rootFolder w" "faults w' = faults w" "chunk_size w' = chunk_size w"
    by (simp_all add: w')
qed

subsection \<open>Lookups by path\<close>

lemma resolves_received:
  "resolves (received c w) = (if is_resolve c then Suc (resolves w) else resolves w)"
  by (simp add: resolves_def received_def)

lemma calls_update_other [simp]:
  "resolves (w\<lparr>rootFolder := t\<rparr>) = resolves w"
  "resolves (w\<lparr>dirs := d\<rparr>) = resolves w"
  "resolves (w\<lparr>files := f\<rparr>) = resolves w"
  by (simp_all add: resolves_def)

lemma getObjectByPath_resolves:
  "getObjectByPath p w = (r, w') \<Longrightarrow> resolves w' = Suc (resolves w)"
  by (auto simp: getObjectByPath_def Let_def resolves_received split: option.splits)

lemma get_object_resolves:
  "CmisStorage_get_object p w = (r, w') \<Longrightarrow> resolves w' = Suc (resolves w)"
  by (auto simp: CmisStorage_get_object_def dest: getObjectByPath_resolves
      split: prod.splits sum.splits exn.splits cmis_error.splits)

lemma getContentStream_resolves:
  "getContentStream obj w = (r, w') \<Longrightarrow> resolves w' = resolves w"
  by (auto simp: getContentStream_def Let_def resolves_received split: option.splits node.splits)

lemma setContentStream_resolves:
  "setContentStream obj b w = (r, w') \<Longrightarrow> resolves w' = resolves w"
  by (auto simp: setContentStream_def Let_def resolves_received split: option.splits node.splits)

lemma getTree_resolves: "getTree obj w = (r, w') \<Longrightarrow> resolves w' = resolves w"
  by (auto simp: getTree_def Let_def resolves_received split: option.splits node.splits)

lemma createFolder_resolves: "createFolder obj n w = (r, w') \<Longrightarrow> resolves w' = resolves w"
  by (auto simp: createFolder_def Let_def resolves_received split: option.splits node.splits)

lemma createDocument_resolves:
  "createDocument obj n b w = (r, w') \<Longrightarrow> resolves w' = resolves w"
  by (auto simp: createDocument_def Let_def resolves_received split: option.splits node.splits)

lemma create_folders_resolves:
  "create_folders raw obj w = (r, w') \<Longrightarrow> resolves w' = resolves w"
proof (induction raw arbitrary: obj w)
  case Nil
  then show ?case by simp
next
  case (Cons dirname rest)
  show ?case
  proof (cases "dirname = []")
    case True
    with Cons show ?thesis by simp
  next
    case False
    obtain r1 w1 where t: "getTree obj w = (r1, w1)" by (cases "getTree obj w")
    have o1: "resolves w1 = resolves w" using getTree_resolves [OF t] .
    show ?thesis
    proof (cases r1)
      case (Inl e)
      with Cons.prems False t o1 show ?thesis by simp
    next
      case (Inr rs)
      show ?thesis
      proof (cases "find (\<lambda>d. getName d = dirname) rs")
        case None
        obtain r2 w2 where c: "createFolder obj dirname w1 = (r2, w2)"
          by (cases "createFolder obj dirname w1")
        have o2: "resolves w2 = resolves w"
          using o1 createFolder_resolves [OF c] by simp
        show ?thesis
        proof (cases r2)
          case (Inl e)
          with Cons.prems False t Inr None c o2 show ?thesis by simp
        next
          case (Inr obj')
          with Cons.prems False t \<open>r1 = Inr rs\<close> None c
          have "create_folders rest obj' w2 = (r, w')" by simp
          from Cons.IH [OF this] o2 show ?thesis by simp
        qed
      next
        case (Some folder_obj)
        with Cons.prems False t Inr
        have "create_folders rest folder_obj w1 = (r, w')" by simp
        from Cons.IH [OF this] o1 show ?thesis by simp
      qed
    qed
  qed
qed

lemma upload_create_resolves:
  "upload_create f self w = (r, self', w') \<Longrightarrow> resolves w' = resolves w"
  by (auto simp: upload_create_def dest!: create_folders_resolves createDocument_resolves
      split: prod.splits sum.splits)

lemma upload_replace_resolves:
  "upload_replace f self w = (r, self', w') \<Longrightarrow> resolves w' = Suc (resolves w)"
  by (auto simp: upload_replace_def Let_def dest!: get_object_resolves setContentStream_resolves
      split: prod.splits sum.splits)

lemma valid_rb: "valid_mode ''rb''"
  by (simp add: valid_mode_def)

lemma io_open_rb:
  assumes "fst (os_path_split p) \<in> set (dirs w)" "snd (os_path_split p) \<notin> {[], ''.'', ''..''}"
    "map_of (files w) p = Some b"
  shows "io_open p ''rb'' None w = (Inr \<lparr>s_name = p, s_mode = ''rb'', s_closed = False, s_pos = 0\<rparr>, w)"
  using assms valid_rb by (simp add: io_open_def)

lemma upload_resolves_once:
  assumes "fst (os_path_split (temporary_filename self)) \<in> set (dirs w)"
    and "snd (os_path_split (temporary_filename self)) \<notin> {[], ''.'', ''..''}"
    and "map_of (files w) (temporary_filename self) = Some b"
    and "upload self w = (r, self', w')"
  shows "resolves w' = Suc (resolves w)"
proof -
  define f where "f = \<lparr>s_name = temporary_filename self, s_mode = ''rb'', s_closed = False, s_pos = 0\<rparr>"
  have o: "io_open (temporary_filename self) ''rb'' None w = (Inr f, w)"
    unfolding f_def using assms(1,2,3) by (rule io_open_rb)
  obtain r1 s1 w1 where u: "upload_replace f self w = (r1, s1, w1)"
    by (cases "upload_replace f self w")
  note r1 = upload_replace_resolves [OF u]
  show ?thesis
  proof (cases "\<exists>n. r1 = Inl (FileNotFoundError n)")
    case True
    then obtain n where "r1 = Inl (FileNotFoundError n)" by blast
    with assms(4) o u have "upload_create f s1 w1 = (r, self', w')"
      by (simp add: upload_def)
    from upload_create_resolves [OF this] r1 show ?thesis by simp
  next
    case False
    with assms(4) o u have "(r, self', w') = (r1, s1, w1)"
      by (auto simp: upload_def split: sum.splits exn.splits)
    with r1 show ?thesis by simp
  qed
qed

lemma close_resolves_once:
  assumes "staged self w" and "has_changed self" and "CmisFile_close self w = (r, self', w')"
  shows "resolves w' = Suc (resolves w)"
proof -
  from assms(1) obtain s b where s: "stream self = Some s" "\<not> s_closed s"
    and d: "temporary_directory self \<in> set (dirs w)"
    and p: "fst (os_path_split (temporary_filename self)) = temporary_directory self"
      "snd (os_path_split (temporary_filename self)) \<notin> {[], ''.'', ''..''}"
    and b: "map_of (files w) (temporary_filename self) = Some b"
    by (auto simp: staged_def split: option.splits)
  define self1 where "self1 = self\<lparr>stream := Some (s\<lparr>s_closed := True\<rparr>)\<rparr>"
  have tf: "temporary_filename self1 = temporary_filename self"
    by (simp add: self1_def temporary_filename_def)
  obtain r2 self2 w2 where u: "upload self1 w = (r2, self2, w2)"
    by (cases "upload self1 w")
  have "resolves w2 = Suc (resolves w)"
    using upload_resolves_once [of self1 w b r2 self2 w2] p d b u by (simp add: tf)
  moreover have "resolves w' = resolves w2"
  proof (cases r2)
    case (Inl e)
    with assms(2,3) s u show ?thesis
      by (simp add: CmisFile_close_def self1_def)
  next
    case (Inr x)
    with assms(2,3) s u
    have "remove_temporary_directory self2 w2 = (r, self', w')"
      by (simp add: CmisFile_close_def self1_def)
    then show ?thesis
      by (auto simp: remove_temporary_directory_def rmtree_def split: if_splits)
  qed
  ultimately show ?thesis by simp
qed

subsection \<open>What opening a handle establishes\<close>

lemma stream_write_frame:
  assumes "stream_write s data w = (r, s', w')"
  shows "dirs w' = dirs w" "calls w' = calls w" "rootFolder w' = rootFolder w"
    "faults w' = faults w" "chunk_size w' = chunk_size w"
    "s_closed s' = s_closed s" "s_name s' = s_name s" "s_mode s' = s_mode s"
    "map_of (files w) p \<noteq> None \<Longrightarrow> map_of (files w') p \<noteq> None"
  using assms
  by (auto simp: stream_write_def update_conv' split: if_splits option.splits)

lemma stream_writelines_frame:
  assumes "stream_writelines s chunks w = (r, s', w')"
  shows "dirs w' = dirs w \<and> calls w' = calls w \<and> rootFolder w' = rootFolder w \<and>
    faults w' = faults w \<and> chunk_size w' = chunk_size w \<and>
    s_closed s' = s_closed s \<and> s_name s' = s_name s \<and> s_mode s' = s_mode s \<and>
    (map_of (files w) p \<noteq> None \<longrightarrow> map_of (files w') p \<noteq> None)"
  using assms
proof (induction chunks arbitrary: s w)
  case Nil
  then show ?case by simp
next
  case (Cons data rest)
  obtain r1 s1 w1 where w1: "stream_write s data w = (r1, s1, w1)"
    by (cases "stream_write s data w")
  note f = stream_write_frame [OF w1]
  show ?case
  proof (cases r1)
    case (Inl e)
    with Cons.prems w1 have "s' = s1" "w' = w1" by simp_all
    with f show ?thesis by simp
  next
    case (Inr u)
    with Cons.prems w1 have "stream_writelines s1 rest w1 = (r, s', w')" by simp
    from Cons.IH [OF this] f show ?thesis by simp
  qed
qed

lemma get_object_frame:
  assumes "CmisStorage_get_object p w = (r, w')"
  shows "dirs w' = dirs w" "files w' = files w" "rootFolder w' = rootFolder w"
    "faults w' = faults w" "chunk_size w' = chunk_size w"
    "calls w' = calls w @ [GetObjectByPath p]"
  using assms
  by (auto simp: CmisStorage_get_object_def getObjectByPath_def Let_def received_def
      split: option.splits cmis_error.splits)

lemma getContentStream_frame:
  assumes "getContentStream obj w = (r, w')"
  shows "dirs w' = dirs w" "files w' = files w" "rootFolder w' = rootFolder w"
    "faults w' = faults w" "chunk_size w' = chunk_size w"
  using assms
  by (auto simp: getContentStream_def Let_def received_def split: option.splits node.splits)

lemma download_frame:
  assumes "download self w = (r, self', w')"
  shows "dirs w' = dirs w \<and> rootFolder w' = rootFolder w \<and> faults w' = faults w \<and>
         chunk_size w' = chunk_size w \<and> self'\<lparr>cmis_obj := x\<rparr> = self\<lparr>cmis_obj := x\<rparr>"
proof -
  obtain r0 w0 where o: "io_open (temporary_filename self) ''wb'' None w = (r0, w0)"
    by (cases "io_open (temporary_filename self) ''wb'' None w")
  show ?thesis
  proof (cases r0)
    case (Inl e)
    with assms o io_open_Inl [OF o [unfolded Inl]] show ?thesis by (auto simp: download_def)
  next
    case (Inr f)
    note f0 = io_open_Inr [OF o [unfolded Inr]]
    obtain r1 w1 where g: "CmisStorage_get_object (name self) w0 = (r1, w1)"
      by (cases "CmisStorage_get_object (name self) w0")
    note f1 = get_object_frame [OF g]
    show ?thesis
    proof (cases r1)
      case (Inl e)
      with assms o Inr g f0 f1 show ?thesis by (auto simp: download_def)
    next
      case (Inr obj)
      obtain r2 w2 where c: "getContentStream obj w1 = (r2, w2)"
        by (cases "getContentStream obj w1")
      note f2 = getContentStream_frame [OF c]
      show ?thesis
      proof (cases r2)
        case (Inl e)
        with assms o \<open>r0 = Inr f\<close> g Inr c f0 f1 f2 show ?thesis by (auto simp: download_def)
      next
        case (Inr chunks)
        obtain r3 f3 w3 where wl: "stream_writelines f chunks w2 = (r3, f3, w3)"
          by (cases "stream_writelines f chunks w2")
        from stream_writelines_frame [OF wl] assms o \<open>r0 = Inr f\<close> g \<open>r1 = Inr obj\<close> c Inr f0 f1 f2 wl
        show ?thesis by (auto simp: download_def)
      qed
    qed
  qed
qed

lemma download_or_mark_changed_frame:
  assumes "download_or_mark_changed mode self w = (r, self', w')"
  shows "dirs w' = dirs w \<and> rootFolder w' = rootFolder w \<and> faults w' = faults w \<and>
         chunk_size w' = chunk_size w \<and>
         self'\<lparr>cmis_obj := x, has_changed := y\<rparr> = self\<lparr>cmis_obj := x, has_changed := y\<rparr>"
proof -
  obtain r0 s0 w0 where d: "download self w = (r0, s0, w0)" by (cases "download self w")
  from download_frame [OF d, of x]
  have f: "dirs w0 = dirs w \<and> rootFolder w0 = rootFolder w \<and> faults w0 = faults w \<and>
         chunk_size w0 = chunk_size w" and e: "s0\<lparr>cmis_obj := x\<rparr> = self\<lparr>cmis_obj := x\<rparr>"
    by simp_all
  from e have e': "s0\<lparr>cmis_obj := x, has_changed := y\<rparr> = self\<lparr>cmis_obj := x, has_changed := y\<rparr>"
    by simp
  have "w' = w0 \<and> (self' = s0 \<or> self' = s0\<lparr>has_changed := True\<rparr>)"
    using assms d
    by (auto simp: download_or_mark_changed_def split: sum.splits exn.splits if_splits)
  with f e' show ?thesis by auto
qed

lemma open_fields:
  assumes "self'\<lparr>cmis_obj := None, has_changed := False\<rparr> = self\<lparr>cmis_obj := None, has_changed := False\<rparr>"
  shows "name self' = name self" "temporary_directory self' = temporary_directory self"
    "stream self' = stream self" "cmis_object self' = cmis_object self"
    "should_download self' = should_download self"
proof -
  let ?a = "self'\<lparr>cmis_obj := None, has_changed := False\<rparr>"
  let ?b = "self\<lparr>cmis_obj := None, has_changed := False\<rparr>"
  have "name ?a = name ?b" by (simp only: assms)
  then show "name self' = name self" by simp
  have "temporary_directory ?a = temporary_directory ?b" by (simp only: assms)
  then show "temporary_directory self' = temporary_directory self" by simp
  have "stream ?a = stream ?b" by (simp only: assms)
  then show "stream self' = stream self" by simp
  have "cmis_object ?a = cmis_object ?b" by (simp only: assms)
  then show "cmis_object self' = cmis_object self" by simp
  have "should_download ?a = should_download ?b" by (simp only: assms)
  then show "should_download self' = should_download self" by simp
qed

lemma CmisFile_open_Inr:
  assumes "CmisFile_open mode enc self w = (Inr u, self', w')"
  shows "staged self' w'" "name self' = name self" "cmis_object self' = cmis_object self"
    "\<exists>s. stream self' = Some s \<and> s_mode s = mode \<and> s_name s = temporary_filename self' \<and> \<not> s_closed s"
    "valid_mode mode"
proof -
  obtain d w1 where m: "mkdtemp w = (d, w1)" by (cases "mkdtemp w")
  note md = mkdtemp_props [OF m]
  define self1 where "self1 = self\<lparr>temporary_directory := d\<rparr>"
  obtain r2 self2 w2 where st:
    "(if should_download self1 then download_or_mark_changed mode self1 w1 else (Inr (), self1, w1))
       = (r2, self2, w2)"
    by (cases "if should_download self1 then download_or_mark_changed mode self1 w1 else (Inr (), self1, w1)")
  have fr: "dirs w2 = dirs w1 \<and>
     self2\<lparr>cmis_obj := None, has_changed := False\<rparr> = self1\<lparr>cmis_obj := None, has_changed := False\<rparr>"
  proof (cases "should_download self1")
    case True
    with st download_or_mark_changed_frame [where x = None and y = False, of mode self1 w1 r2 self2 w2]
    show ?thesis by simp
  next
    case False
    with st show ?thesis by simp
  qed
  note fl = open_fields [OF conjunct2 [OF fr]]
  obtain r3 w3 where o: "io_open (temporary_filename self2) mode enc w2 = (r3, w3)"
    by (cases "io_open (temporary_filename self2) mode enc w2")
  from assms m st o obtain s where r3: "r3 = Inr s" and self': "self' = self2\<lparr>stream := Some s\<rparr>"
    and w': "w' = w3"
    by (auto simp: CmisFile_open_def make_temporary_directory_def self1_def [symmetric]
        split: sum.splits)
  note io = io_open_Inr [OF o [unfolded r3]]
  have td: "temporary_directory self2 = d" using fl(2) by (simp add: self1_def)
  have tf: "temporary_filename self' = temporary_filename self2"
    by (simp add: self' temporary_filename_def)
  have sp: "os_path_split (temporary_filename self2) = (d, os_path_basename (name self2))"
    unfolding temporary_filename_def td
    using split_join(2) [OF basename_no_slash md(1) md(2)] .
  show "staged self' w'"
    unfolding staged_def tf
    using io sp td md(3) fr by (simp add: self' w')
  show "name self' = name self" using fl(1) by (simp add: self' self1_def)
  show "cmis_object self' = cmis_object self" using fl(4) by (simp add: self' self1_def)
  show "\<exists>s. stream self' = Some s \<and> s_mode s = mode \<and> s_name s = temporary_filename self' \<and> \<not> s_closed s"
    using io tf by (simp add: self')
  show "valid_mode mode" using io by simp
qed

subsection \<open>Downloads and lookups of a handle\<close>

lemma init_staged:
  assumes "CmisFile_init nm mode enc w = (Inr h, w')"
  shows "staged h w'"
proof -
  let ?self = "\<lparr>cmis_object = None, cmis_obj = None,
                  name = (if \<not> startswith_slash nm then ''/'' @ nm else nm),
                  should_download = (CHR ''r'' \<in> set mode \<or> CHR ''a'' \<in> set mode),
                  has_changed = (CHR ''w'' \<in> set mode),
                  temporary_directory = [], stream = None\<rparr>"
  from assms have "CmisFile_open mode enc ?self w = (Inr (), h, w')"
    by (auto simp: CmisFile_init_def Let_def split: prod.splits sum.splits)
  then show ?thesis by (rule CmisFile_open_Inr(1))
qed

lemma write_staged:
  assumes "staged h w" and "CmisFile_write data h w = (r, h', w')"
  shows "staged h' w' \<and> has_changed h'"
proof -
  from assms(1) obtain s where s: "stream h = Some s" "\<not> s_closed s"
    by (auto simp: staged_def split: option.splits)
  obtain r1 s1 w1 where sw: "stream_write s data w = (r1, s1, w1)"
    by (cases "stream_write s data w")
  from assms(2) s sw have h': "h' = h\<lparr>has_changed := True, stream := Some s1\<rparr>" and w': "w' = w1"
    by (auto simp: CmisFile_write_def Let_def)
  have tf: "temporary_filename h' = temporary_filename h"
    by (simp add: h' temporary_filename_def)
  note f = stream_write_frame [OF sw]
  show ?thesis
    unfolding staged_def tf
    using assms(1) s f(1,6) f(9) [of "temporary_filename h"]
    by (simp add: staged_def h' w')
qed

lemma writelines_staged:
  assumes "staged h w" and "CmisFile_writelines lines h w = (r, h', w')"
  shows "staged h' w' \<and> has_changed h'"
proof -
  from assms(1) obtain s where s: "stream h = Some s" "\<not> s_closed s"
    by (auto simp: staged_def split: option.splits)
  obtain r1 s1 w1 where sw: "stream_writelines s lines w = (r1, s1, w1)"
    by (cases "stream_writelines s lines w")
  from assms(2) s sw have h': "h' = h\<lparr>has_changed := True, stream := Some s1\<rparr>" and w': "w' = w1"
    by (auto simp: CmisFile_writelines_def Let_def)
  have tf: "temporary_filename h' = temporary_filename h"
    by (simp add: h' temporary_filename_def)
  note f = stream_writelines_frame [OF sw, of "temporary_filename h"]
  show ?thesis
    unfolding staged_def tf
    using assms(1) s f
    by (simp add: staged_def h' w')
qed

lemma valid_mode_one:
  assumes "valid_mode mode" and "a \<in> set mode" and "b \<in> set mode"
    and "a \<in> set ''xrwa''" and "b \<in> set ''xrwa''"
  shows "a = b"
proof -
  let ?f = "filter (\<lambda>c. c \<in> set ''xrwa'') mode"
  from assms(1) have "length ?f = 1" by (simp add: valid_mode_def)
  then obtain z where z: "?f = [z]" by (cases ?f) auto
  from assms(2,4) have "a \<in> set ?f" by simp
  moreover from assms(3,5) have "b \<in> set ?f" by simp
  ultimately show ?thesis unfolding z by simp
qed

lemma write_mode_no_download:
  assumes "valid_mode mode" and "CHR ''w'' \<in> set mode"
  shows "CHR ''r'' \<notin> set mode" "CHR ''a'' \<notin> set mode"
proof -
  show "CHR ''r'' \<notin> set mode"
  proof
    assume "CHR ''r'' \<in> set mode"
    from valid_mode_one [OF assms(1) assms(2) this] show False by simp
  qed
  show "CHR ''a'' \<notin> set mode"
  proof
    assume "CHR ''a'' \<in> set mode"
    from valid_mode_one [OF assms(1) assms(2) this] show False by simp
  qed
qed

lemma io_open_calls: "calls (snd (io_open p m e w)) = calls w"
proof (cases "io_open p m e w")
  case (Pair r w')
  show ?thesis
  proof (cases r)
    case (Inl x)
    with Pair io_open_Inl [of p m e w x w'] show ?thesis by simp
  next
    case (Inr s)
    with Pair io_open_Inr(5) [of p m e w s w'] show ?thesis by simp
  qed
qed

lemma init_without_download:
  assumes "CHR ''r'' \<notin> set mode" and "CHR ''a'' \<notin> set mode"
  shows "calls (snd (CmisFile_init nm mode enc w)) = calls w"
proof -
  obtain d w1 where m: "mkdtemp w = (d, w1)" by (cases "mkdtemp w")
  have c1: "calls w1 = calls w" using mkdtemp_props(5) [OF m] .
  let ?self = "\<lparr>cmis_object = None, cmis_obj = None,
                  name = (if \<not> startswith_slash nm then ''/'' @ nm else nm),
                  should_download = False,
                  has_changed = (CHR ''w'' \<in> set mode),
                  temporary_directory = d, stream = None\<rparr>"
  obtain r3 w3 where o: "io_open (temporary_filename ?self) mode enc w1 = (r3, w3)"
    by (cases "io_open (temporary_filename ?self) mode enc w1")
  have c3: "calls w3 = calls w1"
    using io_open_calls [of "temporary_filename ?self" mode enc w1] o by simp
  have "snd (CmisFile_init nm mode enc w) = w3"
    using assms m o
    by (auto simp: CmisFile_init_def CmisFile_open_def make_temporary_directory_def Let_def
        split: sum.splits)
  with c1 c3 show ?thesis by simp
qed

subsection \<open>The repository tree under updates\<close>

lemma node_at_append:
  "node_at (p @ q) n = (case node_at p n of None \<Rightarrow> None | Some m \<Rightarrow> node_at q m)"
  by (induction p arbitrary: n) (auto split: option.splits)

lemma node_at_snoc:
  "node_at p n = Some m \<Longrightarrow>
   node_at (p @ [s]) n = find (\<lambda>c. node_name c = s) (children m)"
  by (simp add: node_at_append split: option.splits)

lemma node_at_missing_extends:
  "node_at p n = None \<Longrightarrow> node_at (p @ q) n = None"
  by (simp add: node_at_append)

lemma node_name_with_children [simp]: "node_name (with_children n cs) = node_name n"
  by (cases n) auto

lemma children_with_children:
  "children (with_children n cs) = (if is_folder n then cs else [])"
  by (cases n) auto

lemma find_children_folder:
  "find P (children n) = Some c \<Longrightarrow> is_folder n"
  by (cases n) auto

lemma find_update_child:
  assumes "find (\<lambda>c. node_name c = s) cs = Some c" and "node_name (f c) = s"
  shows "find (\<lambda>c. node_name c = s) (update_child s f cs) = Some (f c)"
  using assms by (induction cs) (auto split: if_splits)

lemma node_name_update_at:
  "(p = [] \<Longrightarrow> node_name (f n) = node_name n) \<Longrightarrow> node_name (update_at p f n) = node_name n"
  by (cases p) auto

lemma find_name: "find (\<lambda>c. node_name c = s) cs = Some c \<Longrightarrow> node_name c = s"
  by (induction cs) (auto split: if_splits)

lemma node_at_update_at:
  assumes "node_at p root = Some n" and "node_name (f n) = node_name n"
  shows "node_at (p @ q) (update_at p f root) = node_at q (f n)"
  using assms
proof (induction p arbitrary: root)
  case Nil
  then show ?case by simp
next
  case (Cons s ss)
  from Cons.prems(1) obtain c where c: "find (\<lambda>c. node_name c = s) (children root) = Some c"
    and n: "node_at ss c = Some n"
    by (auto split: option.splits)
  have fo: "is_folder root" using c by (rule find_children_folder)
  have nm: "node_name (update_at ss f c) = s"
  proof -
    have "node_name (update_at ss f c) = node_name c"
    proof (rule node_name_update_at)
      assume "ss = []"
      with n have "c = n" by simp
      with Cons.prems(2) show "node_name (f c) = node_name c" by simp
    qed
    with find_name [OF c] show ?thesis by simp
  qed
  have "find (\<lambda>c. node_name c = s) (update_child s (update_at ss f) (children root))
          = Some (update_at ss f c)"
    using c nm by (rule find_update_child)
  then have "node_at ((s # ss) @ q) (update_at (s # ss) f root) = node_at (ss @ q) (update_at ss f c)"
    using fo by (simp add: children_with_children)
  also have "\<dots> = node_at q (f n)" using n Cons.prems(2) by (rule Cons.IH)
  finally show ?case .
qed

lemma find_getName:
  "find (\<lambda>d. getName d = s) (map (\<lambda>c. obj @ [node_name c]) cs) =
     map_option (\<lambda>c. obj @ [node_name c]) (find (\<lambda>c. node_name c = s) cs)"
  by (induction cs) (auto simp: getName_def)

lemma find_append_new:
  "find P cs = None \<Longrightarrow> P x \<Longrightarrow> find P (cs @ [x]) = Some x"
  by (induction cs) (auto split: if_splits)

lemma find_append_old:
  "find P cs = Some c \<Longrightarrow> find P (cs @ xs) = Some c"
  by (induction cs) (auto split: if_splits)

lemma walkable_empty_folder [simp]: "walkable (Folder s []) ss"
  by (cases ss) auto

lemma expected_walk_cong:
  assumes "\<And>q. q \<noteq> [] \<Longrightarrow> (node_at (p @ q) r1 = None) = (node_at (p @ q) r2 = None)"
  shows "expected_walk r1 p ss = expected_walk r2 p ss"
  using assms
proof (induction ss arbitrary: p)
  case Nil
  then show ?case by simp
next
  case (Cons s ss)
  have a: "(node_at (p @ [s]) r1 = None) = (node_at (p @ [s]) r2 = None)"
    using Cons.prems [of "[s]"] by simp
  have "expected_walk r1 (p @ [s]) ss = expected_walk r2 (p @ [s]) ss"
  proof (rule Cons.IH)
    fix q :: "string list" assume "q \<noteq> []"
    show "(node_at ((p @ [s]) @ q) r1 = None) = (node_at ((p @ [s]) @ q) r2 = None)"
      using Cons.prems [of "s # q"] by simp
  qed
  with a show ?case by simp
qed

subsection \<open>What the lookup at close selects\<close>

lemma setContentStream_calls:
  assumes "setContentStream obj b w = (r, w')"
  shows "calls w' = calls w @ (case node_at obj (rootFolder w) of
                                 Some (Document n c) \<Rightarrow> [SetContentStream obj b] | _ \<Rightarrow> [])"
  using assms
  by (auto simp: setContentStream_def Let_def received_def split: option.splits node.splits)

lemma getTree_creation:
  assumes "getTree obj w = (r, w')"
  shows "\<exists>rest. calls w' = calls w @ rest \<and> list_all is_creation rest"
  using assms
  by (auto simp: getTree_def Let_def received_def split: option.splits node.splits)

lemma createFolder_creation:
  assumes "createFolder obj s w = (r, w')"
  shows "\<exists>rest. calls w' = calls w @ rest \<and> list_all is_creation rest"
  using assms
  by (auto simp: createFolder_def Let_def received_def split: option.splits node.splits)

lemma createDocument_creation:
  assumes "createDocument obj s b w = (r, w')"
  shows "\<exists>rest. calls w' = calls w @ rest \<and> list_all is_creation rest"
  using assms
  by (auto simp: createDocument_def Let_def received_def split: option.splits node.splits)

lemma creation_trans:
  assumes "\<exists>rest. calls w1 = calls w @ rest \<and> list_all is_creation rest"
    and "\<exists>rest. calls w2 = calls w1 @ rest \<and> list_all is_creation rest"
  shows "\<exists>rest. calls w2 = calls w @ rest \<and> list_all is_creation rest"
proof -
  from assms(1) obtain r1 where 1: "calls w1 = calls w @ r1" "list_all is_creation r1" by blast
  from assms(2) obtain r2 where 2: "calls w2 = calls w1 @ r2" "list_all is_creation r2" by blast
  have "calls w2 = calls w @ (r1 @ r2)" "list_all is_creation (r1 @ r2)"
    using 1 2 by simp_all
  then show ?thesis by blast
qed

lemma creation_refl: "\<exists>rest. calls w = calls w @ rest \<and> list_all is_creation rest"
  by (rule exI [of _ "[]"]) simp

lemma create_folders_creation:
  "create_folders raw obj w = (r, w') \<Longrightarrow>
   \<exists>rest. calls w' = calls w @ rest \<and> list_all is_creation rest"
proof (induction raw arbitrary: obj w)
  case Nil
  then show ?case by simp
next
  case (Cons dirname rest)
  show ?case
  proof (cases "dirname = []")
    case True
    with Cons show ?thesis by simp
  next
    case False
    obtain r1 w1 where t: "getTree obj w = (r1, w1)" by (cases "getTree obj w")
    note o1 = getTree_creation [OF t]
    show ?thesis
    proof (cases r1)
      case (Inl e)
      with Cons.prems False t o1 show ?thesis by simp
    next
      case (Inr rs)
      show ?thesis
      proof (cases "find (\<lambda>d. getName d = dirname) rs")
        case None
        obtain r2 w2 where c: "createFolder obj dirname w1 = (r2, w2)"
          by (cases "createFolder obj dirname w1")
        note o2 = creation_trans [OF o1 createFolder_creation [OF c]]
        show ?thesis
        proof (cases r2)
          case (Inl e)
          with Cons.prems False t Inr None c o2 show ?thesis by simp
        next
          case (Inr obj')
          with Cons.prems False t \<open>r1 = Inr rs\<close> None c
          have "create_folders rest obj' w2 = (r, w')" by simp
          from creation_trans [OF o2 Cons.IH [OF this]] show ?thesis .
        qed
      next
        case (Some folder_obj)
        with Cons.prems False t Inr
        have "create_folders rest folder_obj w1 = (r, w')" by simp
        from creation_trans [OF o1 Cons.IH [OF this]] show ?thesis .
      qed
    qed
  qed
qed

lemma upload_create_creation:
  assumes "upload_create f self w = (r, self', w')"
  shows "\<exists>rest. calls w' = calls w @ rest \<and> list_all is_creation rest"
proof -
  obtain dirpath filename where sp: "os_path_split (name self) = (dirpath, filename)"
    by (cases "os_path_split (name self)")
  obtain r1 w1 where cf: "create_folders (split_slash dirpath) [] w = (r1, w1)"
    by (cases "create_folders (split_slash dirpath) [] w")
  note o1 = create_folders_creation [OF cf]
  show ?thesis
  proof (cases r1)
    case (Inl e)
    with assms sp cf o1 show ?thesis by (simp add: upload_create_def)
  next
    case (Inr obj)
    show ?thesis
    proof (cases "fst (stream_read f w1)")
      case (Inl e)
      with assms sp cf \<open>r1 = Inr obj\<close> o1 show ?thesis by (simp add: upload_create_def)
    next
      case (Inr b)
      obtain r2 w2 where cd: "createDocument obj filename b w1 = (r2, w2)"
        by (cases "createDocument obj filename b w1")
      note o2 = creation_trans [OF o1 createDocument_creation [OF cd]]
      from assms sp cf \<open>r1 = Inr obj\<close> Inr cd have "w' = w2"
        by (auto simp: upload_create_def split: sum.splits)
      with o2 show ?thesis by simp
    qed
  qed
qed

lemma setContentStream_not_FileNotFound:
  "setContentStream obj b w \<noteq> (Inl (FileNotFoundError n), w')"
  by (auto simp: setContentStream_def Let_def split: option.splits node.splits)

text \<open>The upload of a staged handle, once the local file is open: the answer of the lookup
  of the handle's name selects what is done.\<close>

lemma upload_selects:
  assumes "fst (os_path_split (temporary_filename self)) \<in> set (dirs w)"
    and "snd (os_path_split (temporary_filename self)) \<notin> {[], ''.'', ''..''}"
    and "map_of (files w) (temporary_filename self) = Some b"
    and "CmisStorage_get_object (name self) w = (r, w1)"
  shows "upload self w =
           (case r of
              Inr obj \<Rightarrow>
                (case setContentStream obj b w1 of (r', w2) \<Rightarrow> (r', self\<lparr>cmis_obj := Some obj\<rparr>, w2))
            | Inl (FileNotFoundError n) \<Rightarrow>
                upload_create \<lparr>s_name = temporary_filename self, s_mode = ''rb'',
                                s_closed = False, s_pos = 0\<rparr> self w1
            | Inl e \<Rightarrow> (Inl e, self, w1))"
proof -
  let ?f = "\<lparr>s_name = temporary_filename self, s_mode = ''rb'', s_closed = False, s_pos = 0\<rparr>"
  have o: "io_open (temporary_filename self) ''rb'' None w = (Inr ?f, w)"
    using assms(1,2,3) by (rule io_open_rb)
  have fl: "files w1 = files w" using get_object_frame(2) [OF assms(4)] .
  have rd: "fst (stream_read ?f w1) = Inr b"
    using assms(3) by (simp add: stream_read_def readable_def fl)
  show ?thesis
  proof (cases r)
    case (Inr obj)
    then show ?thesis
      using o assms(4) rd setContentStream_not_FileNotFound [of obj b w1]
      by (auto simp: upload_def upload_replace_def Let_def split: prod.splits sum.splits exn.splits)
  next
    case (Inl e)
    then show ?thesis
      using o assms(4)
      by (cases e) (simp_all add: upload_def upload_replace_def)
  qed
qed

lemma rmtree_calls: "rmtree d w = (r, w') \<Longrightarrow> calls w' = calls w \<and> rootFolder w' = rootFolder w"
  by (auto simp: rmtree_def split: if_splits)

lemma setContentStream_replaces:
  assumes "node_at obj (rootFolder w) = Some (Document n c)"
    and "map_of (faults w) (SetContentStream obj b) = None"
  shows "\<exists>w'. setContentStream obj b w = (Inr (), w') \<and>
              node_at obj (rootFolder w') = Some (Document n b)"
proof -
  have "node_at (obj @ []) (update_at obj (\<lambda>_. Document n b) (rootFolder w)) =
          node_at [] (Document n b)"
    using assms(1) by (rule node_at_update_at) simp
  then show ?thesis
    using assms by (simp add: setContentStream_def received_def)
qed

lemma close_selects:
  assumes st: "staged self w" and ch: "has_changed self" and s: "stream self = Some s"
    and b: "map_of (files w) (temporary_filename self) = Some b"
    and g: "CmisStorage_get_object (name self) w = (r, w1)"
  defines "closing \<equiv> self\<lparr>stream := Some (s\<lparr>s_closed := True\<rparr>)\<rparr>"
  shows "calls w1 = calls w @ [GetObjectByPath (name self)]"
    and "CmisFile_close self w =
          (case (case r of
                   Inr obj \<Rightarrow>
                     (case setContentStream obj b w1 of
                        (r', w2) \<Rightarrow> (r', closing\<lparr>cmis_obj := Some obj\<rparr>, w2))
                 | Inl (FileNotFoundError n) \<Rightarrow>
                     upload_create \<lparr>s_name = temporary_filename self, s_mode = ''rb'',
                                     s_closed = False, s_pos = 0\<rparr> closing w1
                 | Inl e \<Rightarrow> (Inl e, closing, w1)) of
             (Inl e, self', w') \<Rightarrow> (Inl e, self', w')
           | (Inr u, self', w') \<Rightarrow> remove_temporary_directory self' w')"
    and "r = Inr obj \<Longrightarrow> node_at obj (rootFolder w) = Some (Document n c) \<Longrightarrow>
           calls (snd (snd (CmisFile_close self w))) = calls w1 @ [SetContentStream obj b]"
    and "r = Inr obj \<Longrightarrow> node_at obj (rootFolder w) = Some (Document n c) \<Longrightarrow>
           map_of (faults w) (SetContentStream obj b) = None \<Longrightarrow>
           node_at obj (rootFolder (snd (snd (CmisFile_close self w)))) = Some (Document n b)"
    and "r = Inl (FileNotFoundError m) \<Longrightarrow>
           \<exists>rest. calls (snd (snd (CmisFile_close self w))) = calls w1 @ rest \<and>
                  list_all is_creation rest"
proof -
  let ?f = "\<lparr>s_name = temporary_filename self, s_mode = ''rb'', s_closed = False, s_pos = 0\<rparr>"
  from st s have ns: "\<not> s_closed s"
    and p: "fst (os_path_split (temporary_filename self)) \<in> set (dirs w)"
      "snd (os_path_split (temporary_filename self)) \<notin> {[], ''.'', ''..''}"
    by (auto simp: staged_def)
  have tf: "temporary_filename closing = temporary_filename self" and nm: "name closing = name self"
    and hc: "has_changed closing"
    using ch by (simp_all add: closing_def temporary_filename_def)
  show c1: "calls w1 = calls w @ [GetObjectByPath (name self)]"
    using get_object_frame(6) [OF g] .
  have fr: "rootFolder w1 = rootFolder w" "faults w1 = faults w"
    using get_object_frame(3,4) [OF g] by simp_all
  have up: "upload closing w =
           (case r of
              Inr obj \<Rightarrow>
                (case setContentStream obj b w1 of (r', w2) \<Rightarrow> (r', closing\<lparr>cmis_obj := Some obj\<rparr>, w2))
            | Inl (FileNotFoundError n) \<Rightarrow> upload_create ?f closing w1
            | Inl e \<Rightarrow> (Inl e, closing, w1))"
    using upload_selects [of closing w b r w1, unfolded tf nm] p b g by simp
  show cl: "CmisFile_close self w =
          (case (case r of
                   Inr obj \<Rightarrow>
                     (case setContentStream obj b w1 of
                        (r', w2) \<Rightarrow> (r', closing\<lparr>cmis_obj := Some obj\<rparr>, w2))
                 | Inl (FileNotFoundError n) \<Rightarrow> upload_create ?f closing w1
                 | Inl e \<Rightarrow> (Inl e, closing, w1)) of
             (Inl e, self', w') \<Rightarrow> (Inl e, self', w')
           | (Inr u, self', w') \<Rightarrow> remove_temporary_directory self' w')"
    using s ns hc up by (simp add: CmisFile_close_def closing_def [symmetric])
  {
    assume r: "r = Inr obj" and d: "node_at obj (rootFolder w) = Some (Document n c)"
    obtain r' w2 where sc: "setContentStream obj b w1 = (r', w2)"
      by (cases "setContentStream obj b w1")
    have c2: "calls w2 = calls w1 @ [SetContentStream obj b]"
      using setContentStream_calls [OF sc] d fr by simp
    have "calls (snd (snd (CmisFile_close self w))) = calls w2"
    proof (cases r')
      case (Inl e)
      with cl r sc show ?thesis by simp
    next
      case (Inr u)
      with cl r sc have "CmisFile_close self w =
          remove_temporary_directory (closing\<lparr>cmis_obj := Some obj\<rparr>) w2" by simp
      then show ?thesis
        using rmtree_calls [of "temporary_directory (closing\<lparr>cmis_obj := Some obj\<rparr>)" w2]
        by (cases "rmtree (temporary_directory (closing\<lparr>cmis_obj := Some obj\<rparr>)) w2")
           (simp add: remove_temporary_directory_def)
    qed
    with c2 show "calls (snd (snd (CmisFile_close self w))) = calls w1 @ [SetContentStream obj b]"
      by simp
  }
  {
    assume r: "r = Inr obj" and d: "node_at obj (rootFolder w) = Some (Document n c)"
      and nf: "map_of (faults w) (SetContentStream obj b) = None"
    from setContentStream_replaces [of obj w1 n c b] d nf fr
    obtain w2 where sc: "setContentStream obj b w1 = (Inr (), w2)"
      and nd: "node_at obj (rootFolder w2) = Some (Document n b)" by auto
    from cl r sc have "CmisFile_close self w =
          remove_temporary_directory (closing\<lparr>cmis_obj := Some obj\<rparr>) w2" by simp
    then have "rootFolder (snd (snd (CmisFile_close self w))) = rootFolder w2"
      using rmtree_calls [of "temporary_directory (closing\<lparr>cmis_obj := Some obj\<rparr>)" w2]
      by (cases "rmtree (temporary_directory (closing\<lparr>cmis_obj := Some obj\<rparr>)) w2")
         (simp add: remove_temporary_directory_def)
    with nd show "node_at obj (rootFolder (snd (snd (CmisFile_close self w)))) = Some (Document n b)"
      by simp
  }
  {
    assume r: "r = Inl (FileNotFoundError m)"
    obtain r2 s2 w2 where uc: "upload_create ?f closing w1 = (r2, s2, w2)"
      by (cases "upload_create ?f closing w1")
    note cr = upload_create_creation [OF uc]
    have "calls (snd (snd (CmisFile_close self w))) = calls w2"
    proof (cases r2)
      case (Inl e)
      with cl r uc show ?thesis by simp
    next
      case (Inr u)
      with cl r uc have "CmisFile_close self w = remove_temporary_directory s2 w2" by simp
      then show ?thesis
        using rmtree_calls [of "temporary_directory s2" w2]
        by (cases "rmtree (temporary_directory s2) w2")
           (simp add: remove_temporary_directory_def)
    qed
    with cr show "\<exists>rest. calls (snd (snd (CmisFile_close self w))) = calls w1 @ rest \<and>
                  list_all is_creation rest" by simp
  }
qed

text \<open>
  C6. Opening in a write-from-start mode (a valid mode with \<open>w\<close>) sends no call at all to
  the repository, so nothing is resolved or downloaded. A handle returned by the
  constructor is staged, a write keeps it staged and marks it changed, and closing a
  staged handle that has changed sends exactly one lookup by path. That lookup is of the
  handle's own name, it is the first call of the close, and its answer decides what the
  close does: when it answers with an object, the close is the replacement of that
  object's content by the local file's (the one further call is \<^verbatim>\<open>setContentStream\<close>
  on that object with that content, and the document then holds it unless the
  repository refuses); when it answers that nothing is found, the close is the creation
  branch and only calls of the creation protocol follow; any other error of the lookup
  is the result of the close, with no further call.
\<close>

theorem write_modes_resolve_only_at_close:
  "(valid_mode mode \<and> CHR ''w'' \<in> set mode \<longrightarrow>
      calls (snd (CmisFile_init nm mode encoding w)) = calls w) \<and>
   (CmisFile_init nm mode encoding w = (Inr h, w1) \<longrightarrow> staged h w1) \<and>
   (staged h w1 \<longrightarrow>
      staged (fst (snd (CmisFile_write data h w1))) (snd (snd (CmisFile_write data h w1))) \<and>
      has_changed (fst (snd (CmisFile_write data h w1)))) \<and>
   (staged self w2 \<and> has_changed self \<longrightarrow>
      resolves (snd (snd (CmisFile_close self w2))) = Suc (resolves w2)) \<and>
   (staged self w2 \<and> has_changed self \<and> stream self = Some s \<and>
    map_of (files w2) (temporary_filename self) = Some b \<and>
    CmisStorage_get_object (name self) w2 = (r, w3) \<longrightarrow>
      calls w3 = calls w2 @ [GetObjectByPath (name self)] \<and>
      CmisFile_close self w2 =
        (case (case r of
                 Inr obj \<Rightarrow>
                   (case setContentStream obj b w3 of
                      (r', w4) \<Rightarrow>
                        (r', self\<lparr>stream := Some (s\<lparr>s_closed := True\<rparr>), cmis_obj := Some obj\<rparr>, w4))
               | Inl (FileNotFoundError n) \<Rightarrow>
                   upload_create \<lparr>s_name = temporary_filename self, s_mode = ''rb'',
                                   s_closed = False, s_pos = 0\<rparr>
                     (self\<lparr>stream := Some (s\<lparr>s_closed := True\<rparr>)\<rparr>) w3
               | Inl e \<Rightarrow> (Inl e, self\<lparr>stream := Some (s\<lparr>s_closed := True\<rparr>)\<rparr>, w3)) of
           (Inl e, self', w') \<Rightarrow> (Inl e, self', w')
         | (Inr u, self', w') \<Rightarrow> remove_temporary_directory self' w') \<and>
      (\<forall>obj n c. r = Inr obj \<and> node_at obj (rootFolder w2) = Some (Document n c) \<longrightarrow>
         calls (snd (snd (CmisFile_close self w2))) = calls w3 @ [SetContentStream obj b] \<and>
         (map_of (faults w2) (SetContentStream obj b) = None \<longrightarrow>
            node_at obj (rootFolder (snd (snd (CmisFile_close self w2)))) = Some (Document n b))) \<and>
      (\<forall>m. r = Inl (FileNotFoundError m) \<longrightarrow>
         (\<exists>rest. calls (snd (snd (CmisFile_close self w2))) = calls w3 @ rest \<and>
                 list_all is_creation rest)))"
proof (intro conjI impI allI)
  assume "valid_mode mode \<and> CHR ''w'' \<in> set mode"
  then show "calls (snd (CmisFile_init nm mode encoding w)) = calls w"
    using write_mode_no_download [of mode] init_without_download by blast
next
  assume "CmisFile_init nm mode encoding w = (Inr h, w1)"
  then show "staged h w1" by (rule init_staged)
next
  assume s: "staged h w1"
  obtain r h' w' where wr: "CmisFile_write data h w1 = (r, h', w')"
    by (cases "CmisFile_write data h w1")
  from write_staged [OF s wr] wr
  show "staged (fst (snd (CmisFile_write data h w1))) (snd (snd (CmisFile_write data h w1)))"
    and "has_changed (fst (snd (CmisFile_write data h w1)))" by simp_all
next
  assume a: "staged self w2 \<and> has_changed self"
  obtain r h' w' where c: "CmisFile_close self w2 = (r, h', w')"
    by (cases "CmisFile_close self w2")
  from close_resolves_once [OF conjunct1 [OF a] conjunct2 [OF a] c] c
  show "resolves (snd (snd (CmisFile_close self w2))) = Suc (resolves w2)" by simp
next
  assume a: "staged self w2 \<and> has_changed self \<and> stream self = Some s \<and>
    map_of (files w2) (temporary_filename self) = Some b \<and>
    CmisStorage_get_object (name self) w2 = (r, w3)"
  then have st: "staged self w2" and ch: "has_changed self" and s: "stream self = Some s"
    and b: "map_of (files w2) (temporary_filename self) = Some b"
    and g: "CmisStorage_get_object (name self) w2 = (r, w3)" by simp_all
  note cs = close_selects [OF st ch s b g]
  show "calls w3 = calls w2 @ [GetObjectByPath (name self)]" by (rule cs(1))
  show "CmisFile_close self w2 =
        (case (case r of
                 Inr obj \<Rightarrow>
                   (case setContentStream obj b w3 of
                      (r', w4) \<Rightarrow>
                        (r', self\<lparr>stream := Some (s\<lparr>s_closed := True\<rparr>), cmis_obj := Some obj\<rparr>, w4))
               | Inl (FileNotFoundError n) \<Rightarrow>
                   upload_create \<lparr>s_name = temporary_filename self, s_mode = ''rb'',
                                   s_closed = False, s_pos = 0\<rparr>
                     (self\<lparr>stream := Some (s\<lparr>s_closed := True\<rparr>)\<rparr>) w3
               | Inl e \<Rightarrow> (Inl e, self\<lparr>stream := Some (s\<lparr>s_closed := True\<rparr>)\<rparr>, w3)) of
           (Inl e, self', w') \<Rightarrow> (Inl e, self', w')
         | (Inr u, self', w') \<Rightarrow> remove_temporary_directory self' w')"
    by (rule cs(2))
  {
    fix obj n c
    assume d: "r = Inr obj \<and> node_at obj (rootFolder w2) = Some (Document n c)"
    show "calls (snd (snd (CmisFile_close self w2))) = calls w3 @ [SetContentStream obj b]"
      using cs(3) [of obj n c] d by simp
    assume "map_of (faults w2) (SetContentStream obj b) = None"
    then show "node_at obj (rootFolder (snd (snd (CmisFile_close self w2)))) = Some (Document n b)"
      using cs(4) [of obj n c] d by simp
  }
  {
    fix m
    assume "r = Inl (FileNotFoundError m)"
    then show "\<exists>rest. calls (snd (snd (CmisFile_close self w2))) = calls w3 @ rest \<and>
                 list_all is_creation rest"
      by (rule cs(5))
  }
qed

lemma opened_reached:
  "CmisFile_init ''/folder/file.txt'' ''w'' None plain_world = (Inr opened_handle, opened_world)"
  by code_simp

lemma opened_write:
  "CmisFile_write ''new'' opened_handle opened_world = (Inr (), staged_handle, staged_world plain_world)"
  by code_simp

lemma staged_lookup:
  "CmisStorage_get_object (name staged_handle) (staged_world plain_world) =
     (Inr [''folder'', ''file.txt''],
      received (GetObjectByPath ''/folder/file.txt'') (staged_world plain_world))"
  by code_simp

lemma fresh_reached:
  "(case CmisFile_init ''/folder/b/c.txt'' ''w'' None plain_world of
      (Inr h, w) \<Rightarrow> CmisFile_write ''new'' h w = (Inr (), fresh_handle, fresh_world)
    | (Inl e, w) \<Rightarrow> False)"
  by code_simp

lemma fresh_lookup:
  "CmisStorage_get_object (name fresh_handle) fresh_world =
     (Inl (FileNotFoundError ''/folder/b/c.txt''),
      received (GetObjectByPath ''/folder/b/c.txt'') fresh_world)"
  by code_simp

lemma fresh_staged: "staged fresh_handle fresh_world \<and> has_changed fresh_handle"
  by code_simp

lemma fresh_close_calls:
  "calls (snd (snd (CmisFile_close fresh_handle fresh_world))) =
     [GetObjectByPath ''/folder/b/c.txt'', GetTree [], GetTree [''folder''],
      CreateFolder [''folder''] ''b'', CreateDocument [''folder'', ''b''] ''c.txt'' ''new'']"
  by code_simp

theorem write_modes_resolve_only_at_close_witness:
  "calls (snd (CmisFile_init ''/folder/file.txt'' ''w'' None plain_world)) = calls plain_world \<and>
   staged opened_handle opened_world \<and>
   staged staged_handle (staged_world plain_world) \<and> has_changed staged_handle \<and>
   resolves (snd (snd (CmisFile_close staged_handle (staged_world plain_world)))) =
     Suc (resolves (staged_world plain_world)) \<and>
   calls (snd (snd (CmisFile_close staged_handle (staged_world plain_world)))) =
     [GetObjectByPath ''/folder/file.txt'', SetContentStream [''folder'', ''file.txt''] ''new''] \<and>
   node_at [''folder'', ''file.txt'']
     (rootFolder (snd (snd (CmisFile_close staged_handle (staged_world plain_world))))) =
     Some (Document ''file.txt'' ''new'') \<and>
   (\<exists>rest. calls (snd (snd (CmisFile_close fresh_handle fresh_world))) =
            [GetObjectByPath ''/folder/b/c.txt''] @ rest \<and> list_all is_creation rest)"
proof -
  have v: "valid_mode ''w'' \<and> CHR ''w'' \<in> set ''w''" by (simp add: valid_mode_def)
  let ?s = "\<lparr>s_name = ''/tmp/tmpx/file.txt'', s_mode = ''w'', s_closed = False, s_pos = 3\<rparr>"
  let ?w3 = "received (GetObjectByPath ''/folder/file.txt'') (staged_world plain_world)"
  note t = write_modes_resolve_only_at_close [of "''w''" "''/folder/file.txt''" None plain_world
      opened_handle opened_world "''new''" staged_handle "staged_world plain_world"
      ?s "''new''" "Inr [''folder'', ''file.txt'']" ?w3]
  from t v have 1: "calls (snd (CmisFile_init ''/folder/file.txt'' ''w'' None plain_world)) = calls plain_world"
    by blast
  from t opened_reached have 2: "staged opened_handle opened_world" by blast
  with t have 3: "staged staged_handle (staged_world plain_world) \<and> has_changed staged_handle"
    by (simp add: opened_write)
  with t have 4: "resolves (snd (snd (CmisFile_close staged_handle (staged_world plain_world)))) =
     Suc (resolves (staged_world plain_world))" by blast
  have hs: "stream staged_handle = Some ?s" by (simp add: staged_handle_def)
  have hb: "map_of (files (staged_world plain_world)) (temporary_filename staged_handle) = Some ''new''"
    by code_simp
  have hn: "node_at [''folder'', ''file.txt''] (rootFolder (staged_world plain_world)) =
              Some (Document ''file.txt'' ''old'')"
    by code_simp
  have hf: "map_of (faults (staged_world plain_world))
              (SetContentStream [''folder'', ''file.txt''] ''new'') = None"
    by code_simp
  have c3: "calls ?w3 = [GetObjectByPath ''/folder/file.txt'']" by code_simp
  from t 3 hs hb staged_lookup
  have 5: "\<forall>obj n c. Inr [''folder'', ''file.txt''] = (Inr obj :: exn + objref) \<and>
             node_at obj (rootFolder (staged_world plain_world)) = Some (Document n c) \<longrightarrow>
         calls (snd (snd (CmisFile_close staged_handle (staged_world plain_world)))) =
           calls ?w3 @ [SetContentStream obj ''new''] \<and>
         (map_of (faults (staged_world plain_world)) (SetContentStream obj ''new'') = None \<longrightarrow>
            node_at obj (rootFolder (snd (snd (CmisFile_close staged_handle (staged_world plain_world))))) =
              Some (Document n ''new''))"
    by blast
  from 5 hn hf c3
  have 6: "calls (snd (snd (CmisFile_close staged_handle (staged_world plain_world)))) =
     [GetObjectByPath ''/folder/file.txt'', SetContentStream [''folder'', ''file.txt''] ''new''] \<and>
   node_at [''folder'', ''file.txt'']
     (rootFolder (snd (snd (CmisFile_close staged_handle (staged_world plain_world))))) =
     Some (Document ''file.txt'' ''new'')"
    by simp
  let ?fs = "\<lparr>s_name = ''/tmp/tmpx/c.txt'', s_mode = ''w'', s_closed = False, s_pos = 3\<rparr>"
  let ?fw = "received (GetObjectByPath ''/folder/b/c.txt'') fresh_world"
  note u = write_modes_resolve_only_at_close [of "''w''" "''/folder/file.txt''" None plain_world
      opened_handle opened_world "''new''" fresh_handle fresh_world
      ?fs "''new''" "Inl (FileNotFoundError ''/folder/b/c.txt'')" ?fw]
  have fs: "stream fresh_handle = Some ?fs" by (simp add: fresh_handle_def)
  have fb: "map_of (files fresh_world) (temporary_filename fresh_handle) = Some ''new''"
    by code_simp
  have c4: "calls ?fw = [GetObjectByPath ''/folder/b/c.txt'']" by code_simp
  from u fresh_staged fs fb fresh_lookup
  have "\<forall>m. Inl (FileNotFoundError ''/folder/b/c.txt'') = (Inl (FileNotFoundError m) :: exn + objref) \<longrightarrow>
         (\<exists>rest. calls (snd (snd (CmisFile_close fresh_handle fresh_world))) = calls ?fw @ rest \<and>
                 list_all is_creation rest)"
    by blast
  with c4 have 7: "\<exists>rest. calls (snd (snd (CmisFile_close fresh_handle fresh_world))) =
            [GetObjectByPath ''/folder/b/c.txt''] @ rest \<and> list_all is_creation rest"
    by simp
  from 1 2 3 4 6 7 show ?thesis by blast
qed

subsection \<open>The creation protocol\<close>

lemma accepts_map_of:
  "accepts_creation w \<Longrightarrow> is_creation c \<Longrightarrow> map_of (faults w) c = None"
  unfolding accepts_creation_def by (induction "faults w" arbitrary: w) (auto simp: map_of_eq_None_iff list_all_iff)



lemma getTree_folder:
  assumes "accepts_creation w" and "node_at obj (rootFolder w) = Some (Folder nn cs)"
  shows "getTree obj w = (Inr (map (\<lambda>c. obj @ [node_name c]) cs), received (GetTree obj) w)"
  using assms accepts_map_of [of w "GetTree obj"] by (simp add: getTree_def)

lemma getTree_not_folder:
  assumes "node_at obj (rootFolder w) = Some n" and "\<not> is_folder n"
  shows "getTree obj w = (Inl AttributeError, w)"
  using assms by (cases n) (simp_all add: getTree_def)

lemma createFolder_folder:
  assumes "accepts_creation w" and "node_at obj (rootFolder w) = Some (Folder nn cs)"
  shows "createFolder obj s w =
           (Inr (obj @ [s]),
            (received (CreateFolder obj s) w)
              \<lparr>rootFolder := update_at obj (\<lambda>p. Folder nn (cs @ [Folder s []])) (rootFolder w)\<rparr>)"
  using assms accepts_map_of [of w "CreateFolder obj s"] by (simp add: createFolder_def)

lemma createDocument_folder:
  assumes "accepts_creation w" and "node_at obj (rootFolder w) = Some (Folder nn cs)"
  shows "createDocument obj s b w =
           (Inr (obj @ [s]),
            (received (CreateDocument obj s b) w)
              \<lparr>rootFolder := update_at obj (\<lambda>p. Folder nn (cs @ [Document s b])) (rootFolder w)\<rparr>)"
  using assms accepts_map_of [of w "CreateDocument obj s b"] by (simp add: createDocument_def)

lemma createDocument_not_folder:
  assumes "node_at obj (rootFolder w) = Some n" and "\<not> is_folder n"
  shows "createDocument obj s b w = (Inl AttributeError, w)"
  using assms by (cases n) (simp_all add: createDocument_def)

lemma walked_refl:
  assumes "node_at obj (rootFolder w) = Some n" and "is_folder n"
  shows "walked w obj [] w"
  using assms by (simp add: walked_def)

text \<open>A step into a folder that exists.\<close>

lemma walked_descend:
  assumes n: "node_at obj (rootFolder w) = Some n"
    and c: "find (\<lambda>c. node_name c = s) (children n) = Some c"
    and w1: "w1 = received (GetTree obj) w"
    and rest: "walked w1 (obj @ [s]) ss w'"
  shows "walked w obj (s # ss) w'"
proof -
  have r1: "rootFolder w1 = rootFolder w" and c1: "calls w1 = calls w @ [GetTree obj]"
    and o1: "repository_only w w1"
    by (simp_all add: w1 received_def repository_only_def)
  have "node_at (obj @ [s]) (rootFolder w) = Some c"
    using node_at_snoc [OF n, of s] c by simp
  then have e: "expected_walk (rootFolder w) obj (s # ss) =
               GetTree obj # expected_walk (rootFolder w) (obj @ [s]) ss" by simp
  from rest have a: "calls w' = calls w1 @ expected_walk (rootFolder w1) (obj @ [s]) ss"
    and b: "repository_only w1 w'"
    and m: "\<exists>m. node_at ((obj @ [s]) @ ss) (rootFolder w') = Some m \<and> is_folder m"
    and q: "\<forall>q. q \<noteq> [] \<longrightarrow> node_at ((obj @ [s]) @ ss @ q) (rootFolder w1) = None \<longrightarrow>
           node_at ((obj @ [s]) @ ss @ q) (rootFolder w') = None"
    by (simp_all add: walked_def)
  show ?thesis
    unfolding walked_def
  proof (intro conjI)
    show "calls w' = calls w @ expected_walk (rootFolder w) obj (s # ss)"
      using a c1 r1 e by simp
    show "repository_only w w'" using o1 b by (rule repository_only_trans)
    show "\<exists>m. node_at (obj @ s # ss) (rootFolder w') = Some m \<and> is_folder m"
      using m by simp
    show "\<forall>q. q \<noteq> [] \<longrightarrow> node_at (obj @ (s # ss) @ q) (rootFolder w) = None \<longrightarrow>
           node_at (obj @ (s # ss) @ q) (rootFolder w') = None"
      using q r1 by simp
  qed
qed

text \<open>A step that creates the folder.\<close>

lemma walked_create:
  assumes n: "node_at obj (rootFolder w) = Some (Folder nn cs)"
    and c: "find (\<lambda>c. node_name c = s) cs = None"
    and w2: "w2 = (received (CreateFolder obj s) (received (GetTree obj) w))
              \<lparr>rootFolder := update_at obj (\<lambda>p. Folder nn (cs @ [Folder s []])) (rootFolder w)\<rparr>"
    and rest: "walked w2 (obj @ [s]) ss w'"
  shows "walked w obj (s # ss) w'"
proof -
  have c2: "calls w2 = calls w @ [GetTree obj, CreateFolder obj s]"
    and o2: "repository_only w w2"
    by (simp_all add: w2 received_def repository_only_def)
  have below: "node_at (obj @ [s] @ q) (rootFolder w2) = node_at q (Folder s [])" for q
  proof -
    have "node_at (obj @ [s] @ q) (rootFolder w2) =
            node_at ([s] @ q) (Folder nn (cs @ [Folder s []]))"
      using node_at_update_at [OF n, of "\<lambda>p. Folder nn (cs @ [Folder s []])" "[s] @ q"]
      by (simp add: w2 received_def)
    also have "\<dots> = node_at q (Folder s [])"
      using find_append_new [OF c, of "Folder s []"] by simp
    finally show ?thesis .
  qed
  have miss: "node_at (obj @ [s]) (rootFolder w) = None"
    using node_at_snoc [OF n, of s] c by simp
  have e: "expected_walk (rootFolder w) obj (s # ss) =
             GetTree obj # CreateFolder obj s # expected_walk (rootFolder w) (obj @ [s]) ss"
    using miss by simp
  have e2: "expected_walk (rootFolder w2) (obj @ [s]) ss = expected_walk (rootFolder w) (obj @ [s]) ss"
  proof (rule expected_walk_cong)
    fix q :: "string list" assume "q \<noteq> []"
    then have "node_at ((obj @ [s]) @ q) (rootFolder w2) = None"
      using below [of q] by (cases q) simp_all
    moreover have "node_at ((obj @ [s]) @ q) (rootFolder w) = None"
      using miss by (rule node_at_missing_extends)
    ultimately show "(node_at ((obj @ [s]) @ q) (rootFolder w2) = None) =
                     (node_at ((obj @ [s]) @ q) (rootFolder w) = None)" by simp
  qed
  from rest have a: "calls w' = calls w2 @ expected_walk (rootFolder w2) (obj @ [s]) ss"
    and b: "repository_only w2 w'"
    and m: "\<exists>m. node_at ((obj @ [s]) @ ss) (rootFolder w') = Some m \<and> is_folder m"
    and q: "\<forall>q. q \<noteq> [] \<longrightarrow> node_at ((obj @ [s]) @ ss @ q) (rootFolder w2) = None \<longrightarrow>
           node_at ((obj @ [s]) @ ss @ q) (rootFolder w') = None"
    by (simp_all add: walked_def)
  show ?thesis
    unfolding walked_def
  proof (intro conjI allI impI)
    show "calls w' = calls w @ expected_walk (rootFolder w) obj (s # ss)"
      using a c2 e e2 by simp
    show "repository_only w w'" using o2 b by (rule repository_only_trans)
    show "\<exists>m. node_at (obj @ s # ss) (rootFolder w') = Some m \<and> is_folder m"
      using m by simp
  next
    fix q :: "string list" assume "q \<noteq> []"
    then have "ss @ q \<noteq> []" by simp
    then have "node_at ((obj @ [s]) @ ss @ q) (rootFolder w2) = None"
      using below [of "ss @ q"] by (cases "ss @ q") simp_all
    with q \<open>q \<noteq> []\<close> show "node_at (obj @ (s # ss) @ q) (rootFolder w') = None" by simp
  qed
qed


lemma create_folders_walk:
  assumes "accepts_creation w" and "node_at obj (rootFolder w) = Some n"
    and "walkable n (filter (\<lambda>s. s \<noteq> []) ds)"
  shows "\<exists>w'. create_folders ds obj w = (Inr (obj @ filter (\<lambda>s. s \<noteq> []) ds), w') \<and>
              walked w obj (filter (\<lambda>s. s \<noteq> []) ds) w'"
  using assms
proof (induction ds arbitrary: obj w n)
  case Nil
  then show ?case using walked_refl [of obj w n] by simp
next
  case (Cons d ds)
  let ?segs = "filter (\<lambda>s. s \<noteq> []) ds"
  show ?case
  proof (cases "d = []")
    case True
    with Cons.IH [OF Cons.prems(1) Cons.prems(2)] Cons.prems(3) show ?thesis by simp
  next
    case False
    with Cons.prems(3) have wk: "walkable n (d # ?segs)" by simp
    then have "is_folder n" by simp
    then obtain nn cs where n: "n = Folder nn cs" by (cases n) auto
    define w1 where "w1 = received (GetTree obj) w"
    have at: "node_at obj (rootFolder w) = Some (Folder nn cs)" using Cons.prems(2) n by simp
    have gt: "getTree obj w = (Inr (map (\<lambda>c. obj @ [node_name c]) cs), w1)"
      using getTree_folder [OF Cons.prems(1) at] by (simp add: w1_def)
    have a1: "accepts_creation w1" using Cons.prems(1) by (simp add: w1_def received_def accepts_creation_def)
    have at1: "node_at obj (rootFolder w1) = Some (Folder nn cs)"
      using at by (simp add: w1_def received_def)
    show ?thesis
    proof (cases "find (\<lambda>c. node_name c = d) cs")
      case None
      define w2 where "w2 = (received (CreateFolder obj d) w1)
              \<lparr>rootFolder := update_at obj (\<lambda>p. Folder nn (cs @ [Folder d []])) (rootFolder w1)\<rparr>"
      have cf: "createFolder obj d w1 = (Inr (obj @ [d]), w2)"
        using createFolder_folder [OF a1 at1] by (simp add: w2_def)
      have a2: "accepts_creation w2"
        using a1 by (simp add: w2_def received_def accepts_creation_def)
      have "node_at (obj @ [d]) (rootFolder w2) = node_at [d] (Folder nn (cs @ [Folder d []]))"
        using node_at_update_at [OF at1, of "\<lambda>p. Folder nn (cs @ [Folder d []])" "[d]"]
        by (simp add: w2_def received_def)
      also have "\<dots> = Some (Folder d [])"
        using find_append_new [OF None, of "Folder d []"] by simp
      finally have at2: "node_at (obj @ [d]) (rootFolder w2) = Some (Folder d [])" .
      from Cons.IH [OF a2 at2] obtain w' where
        r: "create_folders ds (obj @ [d]) w2 = (Inr ((obj @ [d]) @ ?segs), w')"
        and wd: "walked w2 (obj @ [d]) ?segs w'" by auto
      have w2': "w2 = (received (CreateFolder obj d) (received (GetTree obj) w))
              \<lparr>rootFolder := update_at obj (\<lambda>p. Folder nn (cs @ [Folder d []])) (rootFolder w)\<rparr>"
        by (simp add: w2_def w1_def received_def)
      have "walked w obj (d # ?segs) w'" using at None w2' wd by (rule walked_create)
      moreover have "create_folders (d # ds) obj w = (Inr (obj @ d # ?segs), w')"
        using False gt None cf r by (simp add: find_getName)
      ultimately show ?thesis using False by simp
    next
      case (Some c)
      have nc: "node_name c = d" using Some by (rule find_name)
      have fc: "find (\<lambda>c. node_name c = d) (children n) = Some c" using Some n by simp
      have atc: "node_at (obj @ [d]) (rootFolder w1) = Some c"
        using node_at_snoc [OF at1, of d] Some by simp
      have wkc: "walkable c ?segs" using wk n Some by simp
      from Cons.IH [OF a1 atc wkc] obtain w' where
        r: "create_folders ds (obj @ [d]) w1 = (Inr ((obj @ [d]) @ ?segs), w')"
        and wd: "walked w1 (obj @ [d]) ?segs w'" by auto
      have "walked w obj (d # ?segs) w'" using Cons.prems(2) fc w1_def wd by (rule walked_descend)
      moreover have "create_folders (d # ds) obj w = (Inr (obj @ d # ?segs), w')"
        using False gt Some r nc by (simp add: find_getName)
      ultimately show ?thesis using False by simp
    qed
  qed
qed

lemma staged_local_file: "staged self w \<Longrightarrow> \<exists>b. local_file self w b"
  by (auto simp: staged_def local_file_def)

lemma upload_create_walk:
  assumes ac: "accepts_creation w"
    and sp: "os_path_split (name self) = (dirpath, filename)"
    and wk: "walkable (rootFolder w) (path_segments dirpath)"
    and f: "f = \<lparr>s_name = p, s_mode = ''rb'', s_closed = False, s_pos = 0\<rparr>"
    and b: "map_of (files w) p = Some b"
  shows "\<exists>w' nn cs.
           upload_create f self w =
             (Inr (), self\<lparr>cmis_obj := Some (path_segments dirpath @ [filename])\<rparr>, w') \<and>
           calls w' = calls w @ expected_walk (rootFolder w) [] (path_segments dirpath) @
                        [CreateDocument (path_segments dirpath) filename b] \<and>
           repository_only w w' \<and>
           node_at (path_segments dirpath) (rootFolder w') =
             Some (Folder nn (cs @ [Document filename b]))"
proof -
  let ?segs = "path_segments dirpath"
  have "node_at [] (rootFolder w) = Some (rootFolder w)" by simp
  from create_folders_walk [OF ac this, of "split_slash dirpath"] wk
  obtain w1 where cf: "create_folders (split_slash dirpath) [] w = (Inr ?segs, w1)"
    and wd: "walked w [] ?segs w1"
    by (auto simp: path_segments_def)
  from wd have c1: "calls w1 = calls w @ expected_walk (rootFolder w) [] ?segs"
    and o1: "repository_only w w1"
    and "\<exists>m. node_at ?segs (rootFolder w1) = Some m \<and> is_folder m"
    by (simp_all add: walked_def)
  then obtain nn cs where at: "node_at ?segs (rootFolder w1) = Some (Folder nn cs)"
    by (metis is_folder.elims(2))
  have a1: "accepts_creation w1" using ac o1 by (simp add: accepts_creation_def repository_only_def)
  have b1: "map_of (files w1) p = Some b" using b o1 by (simp add: repository_only_def)
  have rd: "fst (stream_read f w1) = Inr b"
    using b1 by (simp add: stream_read_def f readable_def)
  define w2 where "w2 = (received (CreateDocument ?segs filename b) w1)
       \<lparr>rootFolder := update_at ?segs (\<lambda>p. Folder nn (cs @ [Document filename b])) (rootFolder w1)\<rparr>"
  have cd: "createDocument ?segs filename b w1 = (Inr (?segs @ [filename]), w2)"
    using createDocument_folder [OF a1 at] by (simp add: w2_def)
  have u: "upload_create f self w = (Inr (), self\<lparr>cmis_obj := Some (?segs @ [filename])\<rparr>, w2)"
    by (simp add: upload_create_def sp cf rd cd)
  have c2: "calls w2 = calls w @ expected_walk (rootFolder w) [] ?segs @ [CreateDocument ?segs filename b]"
    using c1 by (simp add: w2_def received_def)
  have o2: "repository_only w w2"
    using o1 by (simp add: w2_def received_def repository_only_def)
  have "node_at (?segs @ []) (rootFolder w2) = node_at [] (Folder nn (cs @ [Document filename b]))"
    using node_at_update_at [OF at, of "\<lambda>p. Folder nn (cs @ [Document filename b])" "[]"]
    by (simp add: w2_def received_def)
  then have n2: "node_at ?segs (rootFolder w2) = Some (Folder nn (cs @ [Document filename b]))"
    by simp
  from u c2 o2 n2 show ?thesis by blast
qed

text \<open>
  C3. When the lookup at upload time reports that the path is not found, the upload is
  the creation protocol. With the name split into its directory part and its file name,
  the directory segments being the non-empty pieces of the directory part: provided the
  repository carries out the creation calls and every child found under a segment's
  name on the way is a folder, the upload returns normally, and after the lookup the
  calls are exactly those of the walk from the root folder followed by the creation of
  the document. The walk lists the children of the current folder once per segment, in
  order, starting at the root folder and continuing in the child of the segment's name;
  it sends one \<^verbatim>\<open>createFolder\<close> for a segment whose path did not resolve and none for
  one that did. The document is created in the folder the walk ends in, under the file
  name, with the content of the local file; it is the last child of that folder
  afterwards, and the handle refers to it.
\<close>

theorem creation_walks_segments_and_creates_document:
  assumes "local_file self w b"
    and "fst (CmisStorage_get_object (name self) w) = Inl (FileNotFoundError m)"
    and "accepts_creation w"
    and "os_path_split (name self) = (dirpath, filename)"
    and "walkable (rootFolder w) (path_segments dirpath)"
  shows "fst (upload self w) = Inr () \<and>
         cmis_obj (fst (snd (upload self w))) = Some (path_segments dirpath @ [filename]) \<and>
         calls (snd (snd (upload self w))) =
           calls w @ GetObjectByPath (name self) #
             expected_walk (rootFolder w) [] (path_segments dirpath) @
             [CreateDocument (path_segments dirpath) filename b] \<and>
         (\<exists>nn cs. node_at (path_segments dirpath) (rootFolder (snd (snd (upload self w)))) =
                    Some (Folder nn (cs @ [Document filename b])))"
proof -
  obtain r w1 where g: "CmisStorage_get_object (name self) w = (r, w1)"
    by (cases "CmisStorage_get_object (name self) w")
  with assms(2) have r: "r = Inl (FileNotFoundError m)" by simp
  let ?f = "\<lparr>s_name = temporary_filename self, s_mode = ''rb'', s_closed = False, s_pos = 0\<rparr>"
  from assms(1) have l: "fst (os_path_split (temporary_filename self)) \<in> set (dirs w)"
      "snd (os_path_split (temporary_filename self)) \<notin> {[], ''.'', ''..''}"
      "map_of (files w) (temporary_filename self) = Some b"
    by (simp_all add: local_file_def)
  have u: "upload self w = upload_create ?f self w1"
    using upload_selects [OF l g] r by simp
  note fr = get_object_frame [OF g]
  have a1: "accepts_creation w1" using assms(3) fr(4) by (simp add: accepts_creation_def)
  have wk1: "walkable (rootFolder w1) (path_segments dirpath)" using assms(5) fr(3) by simp
  have b1: "map_of (files w1) (temporary_filename self) = Some b" using l(3) fr(2) by simp
  from upload_create_walk [OF a1 assms(4) wk1 refl b1]
  obtain w' nn cs where
    "upload_create ?f self w1 =
       (Inr (), self\<lparr>cmis_obj := Some (path_segments dirpath @ [filename])\<rparr>, w')"
    "calls w' = calls w1 @ expected_walk (rootFolder w1) [] (path_segments dirpath) @
                        [CreateDocument (path_segments dirpath) filename b]"
    "node_at (path_segments dirpath) (rootFolder w') =
             Some (Folder nn (cs @ [Document filename b]))"
    by blast
  with u fr(3) fr(6) show ?thesis by simp
qed

lemma fresh_local_file: "local_file fresh_handle fresh_world ''new''"
  by code_simp

lemma fresh_accepts: "accepts_creation fresh_world"
  by code_simp

lemma fresh_split: "os_path_split (name fresh_handle) = (''/folder/b'', ''c.txt'')"
  by code_simp

lemma fresh_walkable: "walkable (rootFolder fresh_world) (path_segments ''/folder/b'')"
  by code_simp

lemma fresh_segments: "path_segments ''/folder/b'' = [''folder'', ''b'']"
  by code_simp

lemma fresh_expected:
  "expected_walk (rootFolder fresh_world) [] [''folder'', ''b''] =
     [GetTree [], GetTree [''folder''], CreateFolder [''folder''] ''b'']"
  by code_simp

lemma fresh_calls: "calls fresh_world = []"
  by code_simp

theorem creation_walks_segments_and_creates_document_witness:
  "fst (upload fresh_handle fresh_world) = Inr () \<and>
   cmis_obj (fst (snd (upload fresh_handle fresh_world))) = Some [''folder'', ''b'', ''c.txt''] \<and>
   calls (snd (snd (upload fresh_handle fresh_world))) =
     [GetObjectByPath ''/folder/b/c.txt'', GetTree [], GetTree [''folder''],
      CreateFolder [''folder''] ''b'', CreateDocument [''folder'', ''b''] ''c.txt'' ''new''] \<and>
   (\<exists>nn cs. node_at [''folder'', ''b''] (rootFolder (snd (snd (upload fresh_handle fresh_world)))) =
              Some (Folder nn (cs @ [Document ''c.txt'' ''new''])))"
proof -
  have g: "fst (CmisStorage_get_object (name fresh_handle) fresh_world) =
             Inl (FileNotFoundError ''/folder/b/c.txt'')"
    by (simp add: fresh_lookup)
  have n: "name fresh_handle = ''/folder/b/c.txt''" by (simp add: fresh_handle_def)
  note t = creation_walks_segments_and_creates_document
      [OF fresh_local_file g fresh_accepts fresh_split fresh_walkable,
       unfolded n fresh_segments fresh_expected fresh_calls]
  from t show ?thesis by (simp only: append_Nil append_Cons)
qed

subsection \<open>Opening a path that does not exist\<close>


end
